theory Spec2Isabelle
  imports Main
begin

section \<open>Data model\<close>

text \<open>
  The chunk lifecycle manager (class \<open>World\<close>) of the voxel engine. JavaScript numbers
  that hold grid coordinates, sizes and counters are modelled as \<open>int\<close>. A \<open>Chunk\<close>
  is a mutable object shared between the chunk store and the work queue, so chunk
  objects live in an explicit heap (\<open>heap\<close>, with \<open>nextRef\<close> the next unused
  reference) and both containers hold references. \<open>camChunkName\<close> and
  \<open>camChunkPos\<close> are undefined until the first tick assigns them; destructuring an
  undefined \<open>camChunkPos\<close> throws a \<open>TypeError\<close>.
\<close>

type_synonym Coords3 = "int \<times> int \<times> int"

type_synonym ref = nat

datatype GeneratorType = Flat | SinCos

datatype Generator = FlatGenerator | SinCosGenerator

datatype error = TypeError

record WorldOptionsType =
  chunkSize :: int
  chunkPadding :: int
  dimension :: int
  generatorType :: "GeneratorType option"
  renderRadius :: int
  maxChunkPerFrame :: int

definition defaultWorldOptions :: WorldOptionsType where
  "defaultWorldOptions =
     \<lparr> chunkSize = 32, chunkPadding = 2, dimension = 1, generatorType = Some SinCos,
       renderRadius = 3, maxChunkPerFrame = 1 \<rparr>"

record Chunk =
  coords :: Coords3
  name :: string
  size_c :: int
  dimension_c :: int
  padding_c :: int
  voxels :: "Coords3 \<Rightarrow> int"
  isInitialized :: bool
  isPending :: bool
  isDirty :: bool
  isMeshing :: bool
  isAdded :: bool
  isEmpty :: bool

text \<open>
  What the manager does to its collaborators, in program order: \<open>engine.emit\<close> of the
  two signals, the calls into the content generator and into the chunk's rendering
  methods, and the diagnostic \<open>console.log\<close> of \<open>setVoxel\<close>.
\<close>

text \<open>
  Modelled from the spec: \<open>Generator.generate\<close>, \<open>Chunk.buildMesh\<close> and
  \<open>Chunk.addToScene\<close> are not part of the sources. They are opaque calls whose
  effects on the chunk's flags arrive asynchronously, after the tick that made the call,
  so a call is recorded in the trace and leaves the chunk as it is.
\<close>

datatype event =
    EmitChunkChanged Coords3
  | EmitDataNeeded ref
  | CallGenerate ref
  | CallBuildMesh ref
  | CallAddToScene ref
  | ConsoleLog int int

record World =
  options :: WorldOptionsType
  generator :: "Generator option"
  camChunkName :: "string option"
  camChunkPos :: "Coords3 option"
  chunks :: "string \<rightharpoonup> ref"
  dirtyChunks :: "ref list"
  heap :: "ref \<Rightarrow> Chunk"
  nextRef :: ref
  events :: "event list"

section \<open>Helper (coordinate conversions and chunk names)\<close>

text \<open>
  Modelled from the spec: the class \<open>Helper\<close> is not part of the sources. The canonical
  chunk name is the string "cx cy cz" of the decimal coordinates; voxel to chunk
  conversion is floor division by the chunk size and the local position is the
  corresponding modulo.
\<close>

definition digit :: "nat \<Rightarrow> char" where
  "digit n = ''0123456789'' ! (n mod 10)"

fun string_of_nat :: "nat \<Rightarrow> string" where
  "string_of_nat n =
     (if n < 10 then [digit n] else string_of_nat (n div 10) @ [digit (n mod 10)])"

declare string_of_nat.simps [simp del]

definition string_of_int :: "int \<Rightarrow> string" where
  "string_of_int i =
     (if i < 0 then CHR ''-'' # string_of_nat (nat (- i)) else string_of_nat (nat i))"

definition getChunkName :: "Coords3 \<Rightarrow> string" where
  "getChunkName cCoords =
     (case cCoords of (x, y, z) \<Rightarrow>
        string_of_int x @ CHR '' '' # string_of_int y @ CHR '' '' # string_of_int z)"

definition mapVoxelPosToChunkPos :: "Coords3 \<Rightarrow> int \<Rightarrow> Coords3" where
  "mapVoxelPosToChunkPos vCoords csize =
     (case vCoords of (vx, vy, vz) \<Rightarrow> (vx div csize, vy div csize, vz div csize))"

definition mapVoxelPosToChunkLocalPos :: "Coords3 \<Rightarrow> int \<Rightarrow> Coords3" where
  "mapVoxelPosToChunkLocalPos vCoords csize =
     (case vCoords of (vx, vy, vz) \<Rightarrow> (vx mod csize, vy mod csize, vz mod csize))"

section \<open>Chunk\<close>

text \<open>
  Modelled from the spec: the class \<open>Chunk\<close> is not part of the sources. A chunk is
  created uninitialized and dirty with the given size, dimension and padding. Its voxel
  array is addressed by the position relative to the chunk's origin and covers the chunk
  and its ghost margin of \<open>padding\<close> voxels on every side; a write inside the covered
  region stores the type and makes the chunk dirty, a write outside it stores nothing.
\<close>

definition Chunk_new :: "Coords3 \<Rightarrow> int \<Rightarrow> int \<Rightarrow> int \<Rightarrow> Chunk" where
  "Chunk_new cCoords csize cdim cpad =
     \<lparr> coords = cCoords, name = getChunkName cCoords, size_c = csize, dimension_c = cdim,
       padding_c = cpad, voxels = (\<lambda>_. 0), isInitialized = False, isPending = False,
       isDirty = True, isMeshing = False, isAdded = False, isEmpty = True \<rparr>"

definition toLocal :: "Chunk \<Rightarrow> Coords3 \<Rightarrow> Coords3" where
  "toLocal c vCoords =
     (case (vCoords, coords c) of ((vx, vy, vz), (cx, cy, cz)) \<Rightarrow>
        (vx - cx * size_c c, vy - cy * size_c c, vz - cz * size_c c))"

definition covered :: "Chunk \<Rightarrow> Coords3 \<Rightarrow> bool" where
  "covered c vCoords =
     (case toLocal c vCoords of (lx, ly, lz) \<Rightarrow>
        - padding_c c \<le> lx \<and> lx < size_c c + padding_c c \<and>
        - padding_c c \<le> ly \<and> ly < size_c c + padding_c c \<and>
        - padding_c c \<le> lz \<and> lz < size_c c + padding_c c)"

definition Chunk_getVoxel :: "Chunk \<Rightarrow> Coords3 \<Rightarrow> int" where
  "Chunk_getVoxel c vCoords = voxels c (toLocal c vCoords)"

definition Chunk_setVoxel :: "Coords3 \<Rightarrow> int \<Rightarrow> Chunk \<Rightarrow> Chunk" where
  "Chunk_setVoxel vCoords ty c =
     (if covered c vCoords
      then c\<lparr>voxels := (voxels c)(toLocal c vCoords := ty), isDirty := True\<rparr>
      else c)"

section \<open>World\<close>

text \<open>
  Modelled from the spec: the class \<open>SmartDictionary\<close> is not part of the sources. The
  chunk store is a name-keyed map; \<open>get\<close> looks a name up and \<open>set\<close> inserts or
  overwrites. The constructor takes the options after the merge with the defaults.
\<close>

definition World_new :: "WorldOptionsType \<Rightarrow> World" where
  "World_new opts =
     \<lparr> options = opts,
       generator = (case generatorType opts of
                      Some Flat \<Rightarrow> Some FlatGenerator
                    | Some SinCos \<Rightarrow> Some SinCosGenerator
                    | None \<Rightarrow> None),
       camChunkName = None, camChunkPos = None, chunks = Map.empty, dirtyChunks = [],
       heap = (\<lambda>_. Chunk_new (0, 0, 0) 0 0 0), nextRef = 0, events = [] \<rparr>"

definition emit :: "event \<Rightarrow> World \<Rightarrow> World" where
  "emit e w = w\<lparr>events := events w @ [e]\<rparr>"

definition getChunkByName :: "string \<Rightarrow> World \<Rightarrow> ref option" where
  "getChunkByName chunkName w = chunks w chunkName"

definition getChunkByCPos :: "Coords3 \<Rightarrow> World \<Rightarrow> ref option" where
  "getChunkByCPos cCoords w = getChunkByName (getChunkName cCoords) w"

definition getChunkByVoxel :: "Coords3 \<Rightarrow> World \<Rightarrow> ref option" where
  "getChunkByVoxel vCoords w =
     getChunkByCPos (mapVoxelPosToChunkPos vCoords (chunkSize (options w))) w"

text \<open>
  \<open>getNeighborChunksByVoxel\<close>: the six tests \<open>a\<close> to \<open>f\<close>, the pushes in the source's
  order, and the final \<open>filter(Boolean)\<close> that drops the absent neighbours.
\<close>

definition getNeighborChunksByVoxel :: "Coords3 \<Rightarrow> World \<Rightarrow> ref list" where
  "getNeighborChunksByVoxel vCoords w =
     (case mapVoxelPosToChunkPos vCoords (chunkSize (options w)) of (cx, cy, cz) \<Rightarrow>
      case mapVoxelPosToChunkLocalPos vCoords (chunkSize (options w)) of (lx, ly, lz) \<Rightarrow>
        let a = lx < chunkPadding (options w);
            b = ly < chunkPadding (options w);
            c = lz < chunkPadding (options w);
            d = lx \<ge> chunkSize (options w) - chunkPadding (options w);
            e = ly \<ge> chunkSize (options w) - chunkPadding (options w);
            f = lz \<ge> chunkSize (options w) - chunkPadding (options w);
            neighborChunks =
              (if a then [getChunkByCPos (cx - 1, cy, cz) w] else []) @
              (if b then [getChunkByCPos (cx, cy - 1, cz) w] else []) @
              (if c then [getChunkByCPos (cx, cy, cz - 1) w] else []) @
              (if d then [getChunkByCPos (cx + 1, cy, cz) w] else []) @
              (if e then [getChunkByCPos (cx, cy + 1, cz) w] else []) @
              (if f then [getChunkByCPos (cx, cy, cz + 1) w] else [])
        in List.map_filter id neighborChunks)"

definition getVoxelByVoxel :: "Coords3 \<Rightarrow> World \<Rightarrow> int option" where
  "getVoxelByVoxel vCoords w =
     (case getChunkByVoxel vCoords w of
        Some chunk \<Rightarrow> Some (Chunk_getVoxel (heap w chunk) vCoords)
      | None \<Rightarrow> None)"

definition setChunk :: "ref \<Rightarrow> World \<Rightarrow> World" where
  "setChunk chunk w = w\<lparr>chunks := (chunks w)(name (heap w chunk) \<mapsto> chunk)\<rparr>"

text \<open>The call \<open>c.setVoxel(...vCoords, type)\<close> on the chunk object behind a reference.\<close>

definition callSetVoxel :: "Coords3 \<Rightarrow> int \<Rightarrow> ref \<Rightarrow> World \<Rightarrow> World" where
  "callSetVoxel vCoords ty c w = w\<lparr>heap := (heap w)(c := Chunk_setVoxel vCoords ty (heap w c))\<rparr>"

text \<open>
  One pass of the final \<open>for\<close> loop of \<open>setVoxel\<close>: a neighbour that does not read the
  type back is logged.
\<close>

definition checkNeighbor :: "Coords3 \<Rightarrow> int \<Rightarrow> ref \<Rightarrow> World \<Rightarrow> World" where
  "checkNeighbor vCoords ty c w =
     (if Chunk_getVoxel (heap w c) vCoords \<noteq> ty
      then emit (ConsoleLog (Chunk_getVoxel (heap w c) vCoords) ty) w
      else w)"

definition setVoxel :: "Coords3 \<Rightarrow> int \<Rightarrow> World \<Rightarrow> World" where
  "setVoxel vCoords ty w =
     (let chunk = getChunkByVoxel vCoords w;
          w1 = (case chunk of Some c \<Rightarrow> callSetVoxel vCoords ty c w | None \<Rightarrow> w);
          neighborChunks = getNeighborChunksByVoxel vCoords w1;
          w2 = fold (callSetVoxel vCoords ty) neighborChunks w1
      in fold (checkNeighbor vCoords ty) neighborChunks w2)"

subsection \<open>Region fill\<close>

text \<open>
  The body of the innermost loop of \<open>surroundCamChunks\<close> for a coordinate that passed the
  distance test: a missing chunk is constructed (a fresh object on the heap), stored under
  its name and put on the front of the queue.
\<close>

definition createChunk :: "Coords3 \<Rightarrow> World \<Rightarrow> World" where
  "createChunk cCoords w =
     (let newChunk = nextRef w;
          w1 = w\<lparr>heap := (heap w)(newChunk :=
                  Chunk_new cCoords (chunkSize (options w)) (dimension (options w))
                    (chunkPadding (options w))),
                nextRef := Suc (nextRef w)\<rparr>;
          w2 = setChunk newChunk w1
      in w2\<lparr>dirtyChunks := newChunk # dirtyChunks w2\<rparr>)"

text \<open>
  The lookup and the test \<open>!chunk\<close> at one coordinate, and the three nested loops of
  \<open>surroundCamChunks\<close> around the destructured camera chunk \<open>cam\<close>; a coordinate whose
  squared distance exceeds \<open>renderRadius * renderRadius\<close> is skipped (\<open>continue\<close>).
\<close>

definition fillAt :: "Coords3 \<Rightarrow> World \<Rightarrow> World" where
  "fillAt cCoords w =
     (case getChunkByCPos cCoords w of
        None \<Rightarrow> createChunk cCoords w
      | Some chunk \<Rightarrow> w)"

definition surroundLoops :: "Coords3 \<Rightarrow> World \<Rightarrow> World" where
  "surroundLoops cam w =
     (case cam of (cx, cy, cz) \<Rightarrow>
      let r = renderRadius (options w) in
        fold (\<lambda>x. fold (\<lambda>y. fold (\<lambda>z w'.
            let dx = x - cx; dy = y - cy; dz = z - cz in
              if dx * dx + dy * dy + dz * dz > r * r then w' else fillAt (x, y, z) w')
          [cz - r..cz + r]) [cy - r..cy + r]) [cx - r..cx + r] w)"

definition surroundCamChunks :: "World \<Rightarrow> error + World" where
  "surroundCamChunks w =
     (case camChunkPos w of
        None \<Rightarrow> Inl TypeError
      | Some cam \<Rightarrow> Inr (surroundLoops cam w))"

subsection \<open>Camera tracking and readiness sweep\<close>

text \<open>
  The readiness sweep of \<open>checkCamChunk\<close>: the nested conditionals on the flags of an
  existing chunk, the lookup at one coordinate, and the three nested loops with the same
  distance test as the region fill.
\<close>

definition sweepChunk :: "ref \<Rightarrow> World \<Rightarrow> World" where
  "sweepChunk chunk w =
     (if isInitialized (heap w chunk) then
        (if \<not> isDirty (heap w chunk) then
           (if \<not> isAdded (heap w chunk) then emit (CallAddToScene chunk) w else w)
         else
           (if \<not> isMeshing (heap w chunk) then emit (CallBuildMesh chunk) w else w))
      else w)"

definition sweepAt :: "Coords3 \<Rightarrow> World \<Rightarrow> World" where
  "sweepAt cCoords w =
     (case getChunkByCPos cCoords w of
        Some chunk \<Rightarrow> sweepChunk chunk w
      | None \<Rightarrow> w)"

definition sweepLoops :: "Coords3 \<Rightarrow> int \<Rightarrow> World \<Rightarrow> World" where
  "sweepLoops cam r w =
     (case cam of (cx, cy, cz) \<Rightarrow>
        fold (\<lambda>x. fold (\<lambda>y. fold (\<lambda>z w'.
            let dx = x - cx; dy = y - cy; dz = z - cz in
              if dx * dx + dy * dy + dz * dz > r * r then w' else sweepAt (x, y, z) w')
          [cz - r..cz + r]) [cy - r..cy + r]) [cx - r..cx + r] w)"

text \<open>
  \<open>checkCamChunk\<close>; \<open>pos\<close> is the value of \<open>engine.camera.voxel\<close> read by this call. The
  render radius is read once, before the region fill.
\<close>

definition checkCamChunk :: "Coords3 \<Rightarrow> World \<Rightarrow> error + World" where
  "checkCamChunk pos w =
     (let r = renderRadius (options w);
          chunkPos = mapVoxelPosToChunkPos pos (chunkSize (options w));
          chunkName = getChunkName chunkPos;
          changed =
            (if Some chunkName \<noteq> camChunkName w
             then surroundCamChunks
                    ((emit (EmitChunkChanged chunkPos) w)
                       \<lparr>camChunkName := Some chunkName, camChunkPos := Some chunkPos\<rparr>)
             else Inr w)
      in case changed of
           Inl e \<Rightarrow> Inl e
         | Inr w1 \<Rightarrow>
             (case camChunkPos w1 of
                None \<Rightarrow> Inl TypeError
              | Some cam \<Rightarrow> Inr (sweepLoops cam r w1)))"

subsection \<open>Generation request and scheduler drain\<close>

definition requestChunkData :: "ref \<Rightarrow> World \<Rightarrow> World" where
  "requestChunkData chunk w =
     (case generator w of
        None \<Rightarrow>
          emit (EmitDataNeeded chunk)
            (w\<lparr>heap := (heap w)(chunk := (heap w chunk)\<lparr>isEmpty := False, isPending := True\<rparr>)\<rparr>)
      | Some g \<Rightarrow> emit (CallGenerate chunk) w)"

text \<open>
  One pass of the body of the \<open>while\<close> loop of \<open>meshDirtyChunks\<close> for the entry that
  \<open>shift()\<close> returned; the queue of \<open>w\<close> is the queue after the shift.
\<close>

definition drainEntry :: "ref \<Rightarrow> World \<Rightarrow> World" where
  "drainEntry chunk w =
     (if isPending (heap w chunk) then w\<lparr>dirtyChunks := dirtyChunks w @ [chunk]\<rparr>
      else if \<not> isInitialized (heap w chunk) then
        (let w1 = requestChunkData chunk w in w1\<lparr>dirtyChunks := dirtyChunks w1 @ [chunk]\<rparr>)
      else if isMeshing (heap w chunk) then w
      else emit (CallBuildMesh chunk) w)"

text \<open>
  The \<open>while\<close> loop, started with the given \<open>count\<close>. The second component lists the
  entries that \<open>shift()\<close> took off the queue, in order.
\<close>

function meshDirtyLoop :: "int \<Rightarrow> World \<Rightarrow> World \<times> ref list" where
  "meshDirtyLoop count w =
     (if count \<le> maxChunkPerFrame (options w) \<and> length (dirtyChunks w) > 0 then
        (case dirtyChunks w of
           [] \<Rightarrow> (w, [])
         | chunk # rest \<Rightarrow>
             apsnd ((#) chunk)
               (meshDirtyLoop (count + 1) (drainEntry chunk (w\<lparr>dirtyChunks := rest\<rparr>))))
      else (w, []))"
  by pat_completeness auto
termination
  by (relation "measure (\<lambda>(count, w). nat (maxChunkPerFrame (options w) + 1 - count))")
    (auto simp: drainEntry_def requestChunkData_def emit_def Let_def split: option.splits)

declare meshDirtyLoop.simps [simp del]

text \<open>
  \<open>meshDirtyChunks\<close> with the entries it shifted off the queue; the method itself
  returns only the new state.
\<close>

definition meshDirtyTrace :: "World \<Rightarrow> World \<times> ref list" where
  "meshDirtyTrace w =
     (if length (dirtyChunks w) > 0 then meshDirtyLoop 0 w else (w, []))"

definition meshDirtyChunks :: "World \<Rightarrow> World" where
  "meshDirtyChunks w = fst (meshDirtyTrace w)"

definition tick :: "Coords3 \<Rightarrow> World \<Rightarrow> error + World" where
  "tick pos w =
     (case checkCamChunk pos w of
        Inl e \<Rightarrow> Inl e
      | Inr w1 \<Rightarrow> Inr (meshDirtyChunks w1))"

text \<open>The chunk a generation request was issued for, read off the request's event.\<close>

fun requestedChunk :: "event \<Rightarrow> ref option" where
  "requestedChunk (EmitDataNeeded c) = Some c"
| "requestedChunk (CallGenerate c) = Some c"
| "requestedChunk _ = None"

section \<open>Notions used in the statements\<close>

text \<open>
  The grid coordinates the three nested \<open>for\<close> loops of \<open>surroundCamChunks\<close> and of
  \<open>checkCamChunk\<close> run through, in loop order (\<open>cube\<close>), the squared distance they
  compute, and the coordinates that pass the test \<open>d > r * r\<close> without \<open>continue\<close>.
\<close>

definition dist2 :: "Coords3 \<Rightarrow> Coords3 \<Rightarrow> int" where
  "dist2 p q =
     (case (p, q) of ((x, y, z), (cx, cy, cz)) \<Rightarrow>
        (x - cx) * (x - cx) + (y - cy) * (y - cy) + (z - cz) * (z - cz))"

definition cube :: "Coords3 \<Rightarrow> int \<Rightarrow> Coords3 list" where
  "cube cam r =
     (case cam of (cx, cy, cz) \<Rightarrow>
        List.product [cx - r..cx + r] (List.product [cy - r..cy + r] [cz - r..cz + r]))"

definition activeRegion :: "Coords3 \<Rightarrow> int \<Rightarrow> Coords3 list" where
  "activeRegion cam r = filter (\<lambda>q. \<not> dist2 q cam > r * r) (cube cam r)"

text \<open>The coordinates of the region that have no chunk in the store, in loop order.\<close>

definition fillTargets :: "Coords3 \<Rightarrow> World \<Rightarrow> Coords3 list" where
  "fillTargets cam w =
     filter (\<lambda>q. getChunkByCPos q w = None) (activeRegion cam (renderRadius (options w)))"

text \<open>
  The decision table of the readiness sweep as the specification words it, row by row:
  the arguments are \<open>isInitialized\<close>, \<open>isDirty\<close>, \<open>isAdded\<close> and \<open>isMeshing\<close>.
\<close>

datatype SweepAction = NoAction | AddToVisibleSet | TriggerMeshBuild

fun decisionTable :: "bool \<Rightarrow> bool \<Rightarrow> bool \<Rightarrow> bool \<Rightarrow> SweepAction" where
  "decisionTable False dirty added meshing = NoAction"
| "decisionTable True False False meshing = AddToVisibleSet"
| "decisionTable True False True meshing = NoAction"
| "decisionTable True True added False = TriggerMeshBuild"
| "decisionTable True True added True = NoAction"

fun actionEvents :: "SweepAction \<Rightarrow> ref \<Rightarrow> event list" where
  "actionEvents NoAction c = []"
| "actionEvents AddToVisibleSet c = [CallAddToScene c]"
| "actionEvents TriggerMeshBuild c = [CallBuildMesh c]"

definition sweepEvents :: "World \<Rightarrow> Coords3 \<Rightarrow> event list" where
  "sweepEvents w q =
     (case getChunkByCPos q w of
        None \<Rightarrow> []
      | Some c \<Rightarrow>
          actionEvents
            (decisionTable (isInitialized (heap w c)) (isDirty (heap w c))
               (isAdded (heap w c)) (isMeshing (heap w c))) c)"

text \<open>The chunks that the "data needed" signal was emitted for, in the order of emission.\<close>

definition dataNeededChunks :: "event list \<Rightarrow> ref list" where
  "dataNeededChunks es =
     List.map_filter (\<lambda>e. case e of EmitDataNeeded c \<Rightarrow> Some c | _ \<Rightarrow> None) es"

text \<open>
  The faces of the owning chunk that a voxel's local position is within \<open>chunkPadding\<close>
  of, each as the offset to the chunk across it, in the order of the tests \<open>a\<close> to \<open>f\<close>;
  the chunk objects \<open>setVoxel\<close> calls \<open>Chunk.setVoxel\<close> on (the owner, then the
  neighbours).
\<close>

definition shift :: "Coords3 \<Rightarrow> Coords3 \<Rightarrow> Coords3" where
  "shift p d = (case (p, d) of ((x, y, z), (dx, dy, dz)) \<Rightarrow> (x + dx, y + dy, z + dz))"

definition nearFaces :: "WorldOptionsType \<Rightarrow> Coords3 \<Rightarrow> Coords3 list" where
  "nearFaces opts vCoords =
     (case mapVoxelPosToChunkLocalPos vCoords (chunkSize opts) of (lx, ly, lz) \<Rightarrow>
        (if lx < chunkPadding opts then [(- 1, 0, 0)] else []) @
        (if ly < chunkPadding opts then [(0, - 1, 0)] else []) @
        (if lz < chunkPadding opts then [(0, 0, - 1)] else []) @
        (if lx \<ge> chunkSize opts - chunkPadding opts then [(1, 0, 0)] else []) @
        (if ly \<ge> chunkSize opts - chunkPadding opts then [(0, 1, 0)] else []) @
        (if lz \<ge> chunkSize opts - chunkPadding opts then [(0, 0, 1)] else []))"

definition written :: "Coords3 \<Rightarrow> World \<Rightarrow> ref list" where
  "written v w =
     (case getChunkByVoxel v w of Some c \<Rightarrow> [c] | None \<Rightarrow> []) @ getNeighborChunksByVoxel v w"

text \<open>
  Two properties of a store: every chunk is stored under the name of its own coordinates
  (\<open>setChunk\<close> uses the chunk's name as the key), and every stored chunk was built with
  the size and padding of the current options (as \<open>surroundCamChunks\<close> builds them).
\<close>

definition storeNamed :: "World \<Rightarrow> bool" where
  "storeNamed w = (\<forall>q r. getChunkByCPos q w = Some r \<longrightarrow> coords (heap w r) = q)"

definition storeConsistent :: "World \<Rightarrow> bool" where
  "storeConsistent w =
     (\<forall>q r. getChunkByCPos q w = Some r \<longrightarrow>
        coords (heap w r) = q \<and> size_c (heap w r) = chunkSize (options w) \<and>
        padding_c (heap w r) = chunkPadding (options w))"

text \<open>No reference in the store is beyond the objects constructed so far.\<close>

definition storeFresh :: "World \<Rightarrow> bool" where
  "storeFresh w = (\<forall>k r. chunks w k = Some r \<longrightarrow> r < nextRef w)"

section \<open>Sample states\<close>

text \<open>
  Worlds built by creating chunks in a fresh world: five chunks in a row (the queue holds
  them newest first), one chunk with a budget of 0, a fresh world of render radius 1
  whose camera chunk is set, six chunks around the origin, and a world whose only chunk
  is (-1, 0, 0); the chunk size is 32 and the padding 2 throughout.
\<close>

definition world_q5 :: World where
  "world_q5 =
     fold createChunk [(0, 0, 0), (1, 0, 0), (2, 0, 0), (3, 0, 0), (4, 0, 0)]
       (World_new defaultWorldOptions)"

definition world_q1 :: World where
  "world_q1 = createChunk (0, 0, 0) (World_new (defaultWorldOptions\<lparr>maxChunkPerFrame := 0\<rparr>))"

text \<open>The five chunk world with every chunk initialized.\<close>

definition world_ready :: World where
  "world_ready = world_q5\<lparr>heap := (\<lambda>r. (heap world_q5 r)\<lparr>isInitialized := True\<rparr>)\<rparr>"

definition world_r1 :: World where
  "world_r1 =
     (World_new (defaultWorldOptions\<lparr>renderRadius := 1\<rparr>))\<lparr>camChunkPos := Some (0, 0, 0)\<rparr>"

definition world_six :: World where
  "world_six =
     fold createChunk [(0, 0, 0), (- 1, 0, 0), (0, - 1, 0), (0, 0, - 1), (- 1, - 1, 0), (0, 1, 0)]
       (World_new defaultWorldOptions)"

definition world_left :: World where
  "world_left = createChunk (- 1, 0, 0) (World_new defaultWorldOptions)"

text \<open>
  The world of six chunks with the lifecycle flags of five of them set: chunk 0 ready and
  clean, chunk 1 ready and dirty, chunk 2 being meshed, chunk 3 already visible, chunk 4
  pending. A world of two chunks without a content generator.
\<close>

definition world_flags :: World where
  "world_flags =
     world_six\<lparr>heap := (heap world_six)
       (0 := (heap world_six 0)\<lparr>isInitialized := True, isDirty := False\<rparr>,
        1 := (heap world_six 1)\<lparr>isInitialized := True\<rparr>,
        2 := (heap world_six 2)\<lparr>isInitialized := True, isMeshing := True\<rparr>,
        3 := (heap world_six 3)\<lparr>isInitialized := True, isDirty := False, isAdded := True\<rparr>,
        4 := (heap world_six 4)\<lparr>isPending := True\<rparr>)\<rparr>"

definition world_nogen :: World where
  "world_nogen =
     fold createChunk [(0, 0, 0), (1, 0, 0)]
       (World_new (defaultWorldOptions\<lparr>generatorType := None\<rparr>))"

section \<open>Chunk names are injective\<close>

lemma digit_in: "digit n \<in> set ''0123456789''"
  unfolding digit_def by (rule nth_mem) simp

lemma digit_inj: "m < 10 \<Longrightarrow> n < 10 \<Longrightarrow> digit m = digit n \<Longrightarrow> m = n"
proof -
  assume m: "m < 10" and n: "n < 10" and e: "digit m = digit n"
  have d: "distinct ''0123456789''" by simp
  have "''0123456789'' ! m = ''0123456789'' ! n"
    using e m n by (simp add: digit_def)
  then show "m = n"
    using nth_eq_iff_index_eq [OF d, of m n] m n by simp
qed

lemma string_of_nat_nonempty: "string_of_nat n \<noteq> []"
  by (subst string_of_nat.simps) simp

lemma string_of_nat_digits: "set (string_of_nat n) \<subseteq> set ''0123456789''"
proof (induction n rule: string_of_nat.induct)
  case (1 n)
  show ?case
  proof (cases "n < 10")
    case True
    then show ?thesis
      using digit_in [of n] by (subst string_of_nat.simps) simp
  next
    case False
    then show ?thesis
      using "1.IH" digit_in [of "n mod 10"] by (subst string_of_nat.simps) simp
  qed
qed

lemma string_of_nat_inj: "string_of_nat m = string_of_nat n \<Longrightarrow> m = n"
proof (induction m arbitrary: n rule: string_of_nat.induct)
  case (1 m)
  show ?case
  proof (cases "m < 10")
    case True
    note m = this
    show ?thesis
    proof (cases "n < 10")
      case True
      with m "1.prems" show ?thesis
        by (simp add: string_of_nat.simps [of m] string_of_nat.simps [of n] digit_inj)
    next
      case False
      with m "1.prems" string_of_nat_nonempty [of "n div 10"] show ?thesis
        by (simp add: string_of_nat.simps [of m] string_of_nat.simps [of n])
    qed
  next
    case False
    note m = this
    show ?thesis
    proof (cases "n < 10")
      case True
      with m "1.prems" string_of_nat_nonempty [of "m div 10"] show ?thesis
        by (simp add: string_of_nat.simps [of m] string_of_nat.simps [of n])
    next
      case False
      with m "1.prems" have e: "string_of_nat (m div 10) = string_of_nat (n div 10)"
        and d: "digit (m mod 10) = digit (n mod 10)"
        by (simp_all add: string_of_nat.simps [of m] string_of_nat.simps [of n])
      from "1.IH" [OF m e] have "m div 10 = n div 10" .
      moreover from d have "m mod 10 = n mod 10"
        by (intro digit_inj) simp_all
      ultimately show ?thesis
        by (metis div_mult_mod_eq)
    qed
  qed
qed

lemma minus_not_digit: "CHR ''-'' \<notin> set (string_of_nat n)"
  using string_of_nat_digits [of n] by auto

lemma space_not_in_string_of_int: "CHR '' '' \<notin> set (string_of_int i)"
  using string_of_nat_digits [of "nat i"] string_of_nat_digits [of "nat (- i)"]
  by (auto simp: string_of_int_def)

lemma string_of_int_inj: "string_of_int i = string_of_int j \<Longrightarrow> i = j"
proof -
  assume e: "string_of_int i = string_of_int j"
  have hd: "\<And>n. hd (string_of_nat n) \<noteq> CHR ''-''"
    using minus_not_digit string_of_nat_nonempty by (metis list.set_sel(1))
  show "i = j"
  proof (cases "i < 0")
    case True
    note i = this
    show ?thesis
    proof (cases "j < 0")
      case True
      with i e have "string_of_nat (nat (- i)) = string_of_nat (nat (- j))"
        by (simp add: string_of_int_def)
      then have "nat (- i) = nat (- j)" by (rule string_of_nat_inj)
      with i True show ?thesis by simp
    next
      case False
      with i e have "CHR ''-'' # string_of_nat (nat (- i)) = string_of_nat (nat j)"
        by (simp add: string_of_int_def)
      then have "hd (string_of_nat (nat j)) = CHR ''-''"
        by (metis list.sel(1))
      with hd show ?thesis by blast
    qed
  next
    case False
    note i = this
    show ?thesis
    proof (cases "j < 0")
      case True
      with i e have "string_of_nat (nat i) = CHR ''-'' # string_of_nat (nat (- j))"
        by (simp add: string_of_int_def)
      then have "hd (string_of_nat (nat i)) = CHR ''-''"
        by (metis list.sel(1))
      with hd show ?thesis by blast
    next
      case False
      with i e have "string_of_nat (nat i) = string_of_nat (nat j)"
        by (simp add: string_of_int_def)
      then have "nat i = nat j" by (rule string_of_nat_inj)
      with i False show ?thesis by simp
    qed
  qed
qed

lemma split_at_separator:
  "c \<notin> set a \<Longrightarrow> c \<notin> set a' \<Longrightarrow> a @ c # r = a' @ c # r' \<Longrightarrow> a = a' \<and> r = r'"
proof (induction a arbitrary: a')
  case Nil
  then show ?case by (cases a') auto
next
  case (Cons x a)
  then show ?case by (cases a') auto
qed

lemma getChunkName_inj [simp]: "(getChunkName p = getChunkName q) = (p = q)"
proof
  assume e: "getChunkName p = getChunkName q"
  obtain x y z where p: "p = (x, y, z)" by (cases p) auto
  obtain x' y' z' where q: "q = (x', y', z')" by (cases q) auto
  from e p q have e1: "string_of_int x @ CHR '' '' # (string_of_int y @ CHR '' '' # string_of_int z)
      = string_of_int x' @ CHR '' '' # (string_of_int y' @ CHR '' '' # string_of_int z')"
    by (simp add: getChunkName_def)
  from split_at_separator [OF space_not_in_string_of_int space_not_in_string_of_int e1]
  have ex: "string_of_int x = string_of_int x'"
    and e2: "string_of_int y @ CHR '' '' # string_of_int z = string_of_int y' @ CHR '' '' # string_of_int z'"
    by simp_all
  from split_at_separator [OF space_not_in_string_of_int space_not_in_string_of_int e2]
  have ey: "string_of_int y = string_of_int y'" and ez: "string_of_int z = string_of_int z'"
    by simp_all
  from ex ey ez p q show "p = q"
    by (simp add: string_of_int_inj)
next
  assume "p = q"
  then show "getChunkName p = getChunkName q" by simp
qed

lemma getChunkName_image [simp]: "(getChunkName q \<in> getChunkName ` S) = (q \<in> S)"
  by (rule inj_image_mem_iff) (simp add: inj_def)

section \<open>Frame lemmas\<close>

lemma emit_simps [simp]:
  "events (emit e w) = events w @ [e]"
  "heap (emit e w) = heap w"
  "chunks (emit e w) = chunks w"
  "dirtyChunks (emit e w) = dirtyChunks w"
  "options (emit e w) = options w"
  "generator (emit e w) = generator w"
  "camChunkName (emit e w) = camChunkName w"
  "camChunkPos (emit e w) = camChunkPos w"
  "nextRef (emit e w) = nextRef w"
  by (simp_all add: emit_def)

lemma requestChunkData_frame [simp]:
  "chunks (requestChunkData c w) = chunks w"
  "dirtyChunks (requestChunkData c w) = dirtyChunks w"
  "options (requestChunkData c w) = options w"
  "generator (requestChunkData c w) = generator w"
  "camChunkName (requestChunkData c w) = camChunkName w"
  "camChunkPos (requestChunkData c w) = camChunkPos w"
  "nextRef (requestChunkData c w) = nextRef w"
  by (simp_all add: requestChunkData_def split: option.splits)

lemma events_requestChunkData:
  "events (requestChunkData c w) =
     events w @ [case generator w of None \<Rightarrow> EmitDataNeeded c | Some g \<Rightarrow> CallGenerate c]"
  by (simp add: requestChunkData_def split: option.splits)

lemma isInitialized_requestChunkData [simp]:
  "isInitialized (heap (requestChunkData c w) r) = isInitialized (heap w r)"
  by (simp add: requestChunkData_def split: option.splits)

lemma heap_requestChunkData_generator:
  "generator w = Some g \<Longrightarrow> heap (requestChunkData c w) = heap w"
  by (simp add: requestChunkData_def)

lemma drainEntry_frame [simp]:
  "chunks (drainEntry c w) = chunks w"
  "options (drainEntry c w) = options w"
  "generator (drainEntry c w) = generator w"
  "camChunkName (drainEntry c w) = camChunkName w"
  "camChunkPos (drainEntry c w) = camChunkPos w"
  "nextRef (drainEntry c w) = nextRef w"
  by (simp_all add: drainEntry_def Let_def)

lemma dirtyChunks_drainEntry:
  "dirtyChunks (drainEntry c w) =
     dirtyChunks w @ (if isPending (heap w c) \<or> \<not> isInitialized (heap w c) then [c] else [])"
  by (simp add: drainEntry_def Let_def)

section \<open>The scheduler loop\<close>

lemma meshDirtyLoop_length:
  "length (snd (meshDirtyLoop count w)) \<le> nat (maxChunkPerFrame (options w) + 1 - count)"
proof (induction count w rule: meshDirtyLoop.induct)
  case (1 count w)
  show ?case
  proof (cases "count \<le> maxChunkPerFrame (options w) \<and> length (dirtyChunks w) > 0")
    case False
    then show ?thesis by (simp add: meshDirtyLoop.simps [of count w])
  next
    case True
    then obtain chunk rest where q: "dirtyChunks w = chunk # rest"
      by (cases "dirtyChunks w") auto
    from "1.IH" [OF True q]
    have "length (snd (meshDirtyLoop (count + 1) (drainEntry chunk (w\<lparr>dirtyChunks := rest\<rparr>))))
            \<le> nat (maxChunkPerFrame (options w) + 1 - (count + 1))"
      by simp
    with True q show ?thesis
      by (simp add: meshDirtyLoop.simps [of count w])
  qed
qed

text \<open>
  Requeued entries go to the rear, so the first pops of the loop are the entries that
  were queued when it started, in their order.
\<close>

lemma meshDirtyLoop_take:
  "dirtyChunks w = q @ x \<Longrightarrow> int (length q) \<le> maxChunkPerFrame (options w) + 1 - count \<Longrightarrow>
     take (length q) (snd (meshDirtyLoop count w)) = q"
proof (induction count w arbitrary: q x rule: meshDirtyLoop.induct)
  case (1 count w)
  show ?case
  proof (cases q)
    case Nil
    then show ?thesis by simp
  next
    case (Cons c q')
    with "1.prems" have cond: "count \<le> maxChunkPerFrame (options w) \<and> length (dirtyChunks w) > 0"
      and dq: "dirtyChunks w = c # (q' @ x)"
      by auto
    let ?w = "drainEntry c (w\<lparr>dirtyChunks := q' @ x\<rparr>)"
    have "\<exists>x'. dirtyChunks ?w = q' @ x'"
      by (simp add: dirtyChunks_drainEntry)
    then obtain x' where dq': "dirtyChunks ?w = q' @ x'" ..
    have len: "int (length q') \<le> maxChunkPerFrame (options ?w) + 1 - (count + 1)"
      using "1.prems" Cons by simp
    have "take (length q') (snd (meshDirtyLoop (count + 1) ?w)) = q'"
      by (rule "1.IH" [OF cond dq dq' len])
    with cond dq Cons show ?thesis
      by (simp add: meshDirtyLoop.simps [of count w])
  qed
qed

text \<open>
  The queue after the loop: the entries that were queued, followed by the entries the
  loop put back, are the shifted entries followed by the queue that is left. The loop
  stops short of its budget only on an empty queue, and chunks that are initialized and
  not pending are never put back.
\<close>

lemma heap_drainEntry_ready:
  "isInitialized (heap w c) \<Longrightarrow> \<not> isPending (heap w c) \<Longrightarrow> heap (drainEntry c w) = heap w"
  by (simp add: drainEntry_def)

lemma meshDirtyLoop_queue:
  "\<exists>rq. dirtyChunks w @ rq = snd (meshDirtyLoop count w) @ dirtyChunks (fst (meshDirtyLoop count w)) \<and>
     set rq \<subseteq> set (snd (meshDirtyLoop count w)) \<and>
     length rq \<le> length (snd (meshDirtyLoop count w))"
proof (induction count w rule: meshDirtyLoop.induct)
  case (1 count w)
  show ?case
  proof (cases "count \<le> maxChunkPerFrame (options w) \<and> length (dirtyChunks w) > 0")
    case False
    then show ?thesis by (simp add: meshDirtyLoop.simps [of count w])
  next
    case True
    then obtain chunk rest where q: "dirtyChunks w = chunk # rest"
      by (cases "dirtyChunks w") auto
    let ?w = "drainEntry chunk (w\<lparr>dirtyChunks := rest\<rparr>)"
    let ?e = "if isPending (heap w chunk) \<or> \<not> isInitialized (heap w chunk) then [chunk] else []"
    have dq: "dirtyChunks ?w = rest @ ?e"
      by (simp add: dirtyChunks_drainEntry)
    from "1.IH" [OF True q] obtain rq where
      rq: "dirtyChunks ?w @ rq = snd (meshDirtyLoop (count + 1) ?w) @
             dirtyChunks (fst (meshDirtyLoop (count + 1) ?w))"
      and s: "set rq \<subseteq> set (snd (meshDirtyLoop (count + 1) ?w))"
      and l: "length rq \<le> length (snd (meshDirtyLoop (count + 1) ?w))"
      by blast
    have r: "meshDirtyLoop count w = apsnd ((#) chunk) (meshDirtyLoop (count + 1) ?w)"
      using True q by (simp add: meshDirtyLoop.simps [of count w])
    have "dirtyChunks w @ (?e @ rq) =
        snd (meshDirtyLoop count w) @ dirtyChunks (fst (meshDirtyLoop count w))"
      using rq by (simp add: r q dq)
    moreover have "set (?e @ rq) \<subseteq> set (snd (meshDirtyLoop count w))"
      using s by (auto simp: r)
    moreover have "length (?e @ rq) \<le> length (snd (meshDirtyLoop count w))"
      using l by (simp add: r)
    ultimately show ?thesis
      by blast
  qed
qed

lemma meshDirtyLoop_stop:
  "length (snd (meshDirtyLoop count w)) < nat (maxChunkPerFrame (options w) + 1 - count) \<Longrightarrow>
     dirtyChunks (fst (meshDirtyLoop count w)) = []"
proof (induction count w rule: meshDirtyLoop.induct)
  case (1 count w)
  show ?case
  proof (cases "count \<le> maxChunkPerFrame (options w) \<and> length (dirtyChunks w) > 0")
    case False
    with "1.prems" show ?thesis
      by (auto simp: meshDirtyLoop.simps [of count w])
  next
    case True
    then obtain chunk rest where q: "dirtyChunks w = chunk # rest"
      by (cases "dirtyChunks w") auto
    let ?w = "drainEntry chunk (w\<lparr>dirtyChunks := rest\<rparr>)"
    have r: "meshDirtyLoop count w = apsnd ((#) chunk) (meshDirtyLoop (count + 1) ?w)"
      using True q by (simp add: meshDirtyLoop.simps [of count w])
    from "1.prems" True
    have "length (snd (meshDirtyLoop (count + 1) ?w)) <
        nat (maxChunkPerFrame (options ?w) + 1 - (count + 1))"
      by (simp add: r)
    from "1.IH" [OF True q this] show ?thesis
      by (simp add: r)
  qed
qed

lemma meshDirtyLoop_ready:
  "\<forall>c\<in>set (dirtyChunks w). isInitialized (heap w c) \<and> \<not> isPending (heap w c) \<Longrightarrow>
     snd (meshDirtyLoop count w) =
       take (nat (maxChunkPerFrame (options w) + 1 - count)) (dirtyChunks w) \<and>
     dirtyChunks (fst (meshDirtyLoop count w)) =
       drop (nat (maxChunkPerFrame (options w) + 1 - count)) (dirtyChunks w)"
proof (induction count w rule: meshDirtyLoop.induct)
  case (1 count w)
  show ?case
  proof (cases "count \<le> maxChunkPerFrame (options w) \<and> length (dirtyChunks w) > 0")
    case False
    then show ?thesis
      by (auto simp: meshDirtyLoop.simps [of count w])
  next
    case True
    then obtain chunk rest where q: "dirtyChunks w = chunk # rest"
      by (cases "dirtyChunks w") auto
    let ?w = "drainEntry chunk (w\<lparr>dirtyChunks := rest\<rparr>)"
    have r: "meshDirtyLoop count w = apsnd ((#) chunk) (meshDirtyLoop (count + 1) ?w)"
      using True q by (simp add: meshDirtyLoop.simps [of count w])
    from "1.prems" q have fc: "isInitialized (heap w chunk)" "\<not> isPending (heap w chunk)"
      by simp_all
    then have h: "heap ?w = heap w"
      by (simp add: heap_drainEntry_ready)
    have dq: "dirtyChunks ?w = rest"
      using fc by (simp add: dirtyChunks_drainEntry)
    have "\<forall>c\<in>set (dirtyChunks ?w). isInitialized (heap ?w c) \<and> \<not> isPending (heap ?w c)"
      using "1.prems" q by (simp add: h dq)
    from "1.IH" [OF True q this]
    have ih: "snd (meshDirtyLoop (count + 1) ?w) =
        take (nat (maxChunkPerFrame (options w) + 1 - (count + 1))) rest"
      "dirtyChunks (fst (meshDirtyLoop (count + 1) ?w)) =
        drop (nat (maxChunkPerFrame (options w) + 1 - (count + 1))) rest"
      by (simp_all add: dq)
    from True have n: "nat (maxChunkPerFrame (options w) + 1 - count) =
        Suc (nat (maxChunkPerFrame (options w) + 1 - (count + 1)))"
      by linarith
    show ?thesis
      by (simp only: r q n ih snd_apsnd fst_apsnd take_Suc_Cons drop_Suc_Cons)
  qed
qed

section \<open>The nested loops over the region\<close>

lemma fold_product:
  "fold (\<lambda>x. fold (\<lambda>y. g (x, y)) ys) xs = fold g (List.product xs ys)"
  by (induction xs) (simp_all add: fold_map comp_def)

lemma fold_skip:
  "fold (\<lambda>q s. if P q then s else f q s) qs = fold f (filter (\<lambda>q. \<not> P q) qs)"
  by (induction qs) (auto simp: fun_eq_iff)

lemma fold_loops:
  "fold (\<lambda>x. fold (\<lambda>y. fold (\<lambda>z s.
       let dx = x - cx; dy = y - cy; dz = z - cz in
         if dx * dx + dy * dy + dz * dz > r * r then s else f (x, y, z) s)
     [cz - r..cz + r]) [cy - r..cy + r]) [cx - r..cx + r]
   = fold f (activeRegion (cx, cy, cz) r)"
proof -
  let ?g = "\<lambda>q s. if dist2 q (cx, cy, cz) > r * r then s else f q s"
  have "fold (\<lambda>x. fold (\<lambda>y. fold (\<lambda>z. ?g (x, y, z)) [cz - r..cz + r]) [cy - r..cy + r]) [cx - r..cx + r]
      = fold (\<lambda>x. fold (\<lambda>yz. ?g (x, yz)) (List.product [cy - r..cy + r] [cz - r..cz + r])) [cx - r..cx + r]"
    using fold_product [where g = "\<lambda>yz. ?g (x, yz)" for x] by (simp add: case_prod_unfold)
  also have "\<dots> = fold ?g (cube (cx, cy, cz) r)"
    using fold_product [where g = ?g and xs = "[cx - r..cx + r]"
        and ys = "List.product [cy - r..cy + r] [cz - r..cz + r]"]
    by (simp add: cube_def)
  also have "\<dots> = fold f (activeRegion (cx, cy, cz) r)"
    by (simp add: fold_skip activeRegion_def)
  finally show ?thesis
    by (simp add: dist2_def Let_def)
qed

lemma surroundLoops_fold:
  "surroundLoops cam w = fold fillAt (activeRegion cam (renderRadius (options w))) w"
  by (cases cam) (simp add: surroundLoops_def Let_def fold_loops [unfolded Let_def])

lemma sweepLoops_fold:
  "sweepLoops cam r w = fold sweepAt (activeRegion cam r) w"
  by (cases cam) (simp add: sweepLoops_def Let_def fold_loops [unfolded Let_def])

lemma distinct_activeRegion: "distinct (activeRegion cam r)"
  by (cases cam) (simp add: activeRegion_def cube_def distinct_product)

lemma abs_le_of_squares:
  fixes a r :: int
  assumes "a * a + b * b + c * c \<le> r * r" and "0 \<le> r"
  shows "\<bar>a\<bar> \<le> r"
proof -
  have "0 \<le> b * b" "0 \<le> c * c" by simp_all
  with assms have "a * a \<le> r * r" by linarith
  then have "a\<^sup>2 \<le> r\<^sup>2" by (simp add: power2_eq_square)
  then have "\<bar>a\<bar> \<le> \<bar>r\<bar>" by (simp add: abs_le_square_iff)
  with assms show ?thesis by simp
qed

lemma set_activeRegion:
  assumes "0 \<le> r"
  shows "set (activeRegion cam r) = {q. dist2 q cam \<le> r * r}"
proof -
  obtain cx cy cz where cam: "cam = (cx, cy, cz)" by (cases cam) auto
  have "\<bar>x - cx\<bar> \<le> r \<and> \<bar>y - cy\<bar> \<le> r \<and> \<bar>z - cz\<bar> \<le> r"
    if "dist2 (x, y, z) (cx, cy, cz) \<le> r * r" for x y z
  proof -
    from that have d: "(x - cx) * (x - cx) + (y - cy) * (y - cy) + (z - cz) * (z - cz) \<le> r * r"
      by (simp add: dist2_def)
    then have d2: "(y - cy) * (y - cy) + (x - cx) * (x - cx) + (z - cz) * (z - cz) \<le> r * r"
      and d3: "(z - cz) * (z - cz) + (y - cy) * (y - cy) + (x - cx) * (x - cx) \<le> r * r"
      by linarith+
    from abs_le_of_squares [OF d assms] abs_le_of_squares [OF d2 assms]
      abs_le_of_squares [OF d3 assms]
    show ?thesis by simp
  qed
  then have "(x, y, z) \<in> set (cube (cx, cy, cz) r)"
    if "dist2 (x, y, z) (cx, cy, cz) \<le> r * r" for x y z
    using that by (fastforce simp: cube_def)
  then show ?thesis
    by (auto simp: activeRegion_def cam)
qed

section \<open>Region fill\<close>

lemma createChunk_simps [simp]:
  "options (createChunk q w) = options w"
  "generator (createChunk q w) = generator w"
  "camChunkName (createChunk q w) = camChunkName w"
  "camChunkPos (createChunk q w) = camChunkPos w"
  "events (createChunk q w) = events w"
  "nextRef (createChunk q w) = Suc (nextRef w)"
  "dirtyChunks (createChunk q w) = nextRef w # dirtyChunks w"
  "chunks (createChunk q w) = (chunks w)(getChunkName q \<mapsto> nextRef w)"
  "heap (createChunk q w) = (heap w)(nextRef w :=
     Chunk_new q (chunkSize (options w)) (dimension (options w)) (chunkPadding (options w)))"
  by (simp_all add: createChunk_def setChunk_def Let_def Chunk_new_def)

lemma fold_createChunk_frame [simp]:
  "options (fold createChunk ms w) = options w"
  "generator (fold createChunk ms w) = generator w"
  "camChunkName (fold createChunk ms w) = camChunkName w"
  "camChunkPos (fold createChunk ms w) = camChunkPos w"
  "events (fold createChunk ms w) = events w"
  "nextRef (fold createChunk ms w) = nextRef w + length ms"
  by (induction ms arbitrary: w; simp)+

lemma fold_createChunk_queue:
  "dirtyChunks (fold createChunk ms w) =
     rev [nextRef w..<nextRef w + length ms] @ dirtyChunks w"
proof (induction ms arbitrary: w)
  case Nil
  show ?case by simp
next
  case (Cons q ms)
  have len: "nextRef w + length (q # ms) = Suc (nextRef w) + length ms"
    by simp
  have "[nextRef w..<Suc (nextRef w) + length ms] =
      nextRef w # [Suc (nextRef w)..<Suc (nextRef w) + length ms]"
    by (rule upt_conv_Cons) simp
  then have u: "[nextRef w..<nextRef w + length (q # ms)] =
      nextRef w # [Suc (nextRef w)..<Suc (nextRef w) + length ms]"
    by (simp only: len)
  have "dirtyChunks (fold createChunk (q # ms) w) =
      rev [Suc (nextRef w)..<Suc (nextRef w) + length ms] @ nextRef w # dirtyChunks w"
    using Cons.IH [of "createChunk q w"] by simp
  also have "\<dots> = rev [nextRef w..<nextRef w + length (q # ms)] @ dirtyChunks w"
    by (simp only: u rev.simps append_assoc append_Cons append_Nil)
  finally show ?case .
qed

lemma fold_createChunk_chunks_other:
  "k \<notin> getChunkName ` set ms \<Longrightarrow> chunks (fold createChunk ms w) k = chunks w k"
  by (induction ms arbitrary: w) auto

lemma fold_createChunk_chunks_new:
  "distinct ms \<Longrightarrow> i < length ms \<Longrightarrow>
     chunks (fold createChunk ms w) (getChunkName (ms ! i)) = Some (nextRef w + i)"
proof (induction ms arbitrary: w i)
  case Nil
  then show ?case by simp
next
  case (Cons q ms)
  show ?case
  proof (cases i)
    case 0
    from Cons.prems have "getChunkName q \<notin> getChunkName ` set ms"
      by auto
    then show ?thesis
      using 0 by (simp add: fold_createChunk_chunks_other)
  next
    case (Suc j)
    with Cons.prems Cons.IH [of j "createChunk q w"] show ?thesis
      by simp
  qed
qed

lemma fold_createChunk_heap_old:
  "r < nextRef w \<Longrightarrow> heap (fold createChunk ms w) r = heap w r"
  by (induction ms arbitrary: w) auto

lemma fold_createChunk_heap_new:
  "i < length ms \<Longrightarrow>
     heap (fold createChunk ms w) (nextRef w + i) =
       Chunk_new (ms ! i) (chunkSize (options w)) (dimension (options w)) (chunkPadding (options w))"
proof (induction ms arbitrary: w i)
  case Nil
  then show ?case by simp
next
  case (Cons q ms)
  show ?case
  proof (cases i)
    case 0
    then show ?thesis
      by (simp add: fold_createChunk_heap_old)
  next
    case (Suc j)
    with Cons.prems Cons.IH [of j "createChunk q w"] show ?thesis
      by simp
  qed
qed

lemma fold_fillAt:
  "distinct qs \<Longrightarrow>
     fold fillAt qs w = fold createChunk (filter (\<lambda>q. getChunkByCPos q w = None) qs) w"
proof (induction qs arbitrary: w)
  case Nil
  show ?case by simp
next
  case (Cons q qs)
  show ?case
  proof (cases "getChunkByCPos q w")
    case (Some c)
    with Cons show ?thesis
      by (simp add: fillAt_def)
  next
    case None
    have "filter (\<lambda>q'. getChunkByCPos q' (createChunk q w) = None) qs
        = filter (\<lambda>q'. getChunkByCPos q' w = None) qs"
      using Cons.prems
      by (intro filter_cong) (auto simp: getChunkByCPos_def getChunkByName_def)
    with None Cons show ?thesis
      by (simp add: fillAt_def)
  qed
qed

lemma surroundLoops_create:
  "surroundLoops cam w = fold createChunk (fillTargets cam w) w"
  by (simp add: surroundLoops_fold fold_fillAt distinct_activeRegion fillTargets_def)

lemma set_fillTargets:
  "0 \<le> renderRadius (options w) \<Longrightarrow>
     set (fillTargets cam w) =
       {q. dist2 q cam \<le> renderRadius (options w) * renderRadius (options w) \<and>
           getChunkByCPos q w = None}"
  by (auto simp: fillTargets_def set_activeRegion)

lemma distinct_fillTargets: "distinct (fillTargets cam w)"
  by (simp add: fillTargets_def distinct_activeRegion)

section \<open>Readiness sweep\<close>

lemma sweepAt_events: "sweepAt q w = w\<lparr>events := events w @ sweepEvents w q\<rparr>"
  by (cases "isInitialized (heap w (the (getChunkByCPos q w)))";
      cases "isDirty (heap w (the (getChunkByCPos q w)))";
      cases "isAdded (heap w (the (getChunkByCPos q w)))";
      cases "isMeshing (heap w (the (getChunkByCPos q w)))")
     (simp_all add: sweepAt_def sweepChunk_def sweepEvents_def emit_def split: option.splits)

lemma sweepEvents_events_update [simp]:
  "sweepEvents (w\<lparr>events := es\<rparr>) = sweepEvents w"
  by (rule ext)
    (simp add: sweepEvents_def getChunkByCPos_def getChunkByName_def split: option.splits)

lemma fold_sweepAt:
  "fold sweepAt qs w = w\<lparr>events := events w @ concat (map (sweepEvents w) qs)\<rparr>"
proof (induction qs arbitrary: w)
  case Nil
  show ?case by simp
next
  case (Cons q qs)
  have "fold sweepAt (q # qs) w = fold sweepAt qs (sweepAt q w)"
    by simp
  also have "\<dots> = (sweepAt q w)\<lparr>events := events (sweepAt q w) @
      concat (map (sweepEvents (sweepAt q w)) qs)\<rparr>"
    by (rule Cons.IH)
  also have "\<dots> = w\<lparr>events := events w @ concat (map (sweepEvents w) (q # qs))\<rparr>"
    by (simp add: sweepAt_events)
  finally show ?case .
qed

lemma sweepLoops_events:
  "sweepLoops cam r w = w\<lparr>events := events w @ concat (map (sweepEvents w) (activeRegion cam r))\<rparr>"
  by (simp add: sweepLoops_fold fold_sweepAt)

section \<open>Voxel edits\<close>

lemma map_filter_append: "List.map_filter f (xs @ ys) = List.map_filter f xs @ List.map_filter f ys"
  by (induction xs) (simp_all add: List.map_filter_simps split: option.splits)

lemma map_filter_if:
  "List.map_filter f (if b then [x] else []) = (if b then (case f x of None \<Rightarrow> [] | Some y \<Rightarrow> [y]) else [])"
  by (simp add: List.map_filter_simps split: option.splits)

lemma getNeighborChunksByVoxel_faces:
  "getNeighborChunksByVoxel v w =
     List.map_filter
       (\<lambda>d. getChunkByCPos (shift (mapVoxelPosToChunkPos v (chunkSize (options w))) d) w)
       (nearFaces (options w) v)"
proof -
  obtain cx cy cz where c: "mapVoxelPosToChunkPos v (chunkSize (options w)) = (cx, cy, cz)"
    by (cases "mapVoxelPosToChunkPos v (chunkSize (options w))") auto
  obtain lx ly lz where l: "mapVoxelPosToChunkLocalPos v (chunkSize (options w)) = (lx, ly, lz)"
    by (cases "mapVoxelPosToChunkLocalPos v (chunkSize (options w))") auto
  show ?thesis
    by (simp add: getNeighborChunksByVoxel_def nearFaces_def c l Let_def map_filter_append
        map_filter_if shift_def split: option.splits)
qed

lemma nearFaces_unit:
  "set (nearFaces opts v) \<subseteq>
     {(- 1, 0, 0), (0, - 1, 0), (0, 0, - 1), (1, 0, 0), (0, 1, 0), (0, 0, 1)}"
  by (cases "mapVoxelPosToChunkLocalPos v (chunkSize opts)") (auto simp: nearFaces_def split: if_splits)

lemma distinct_nearFaces: "distinct (nearFaces opts v)"
  by (cases "mapVoxelPosToChunkLocalPos v (chunkSize opts)") (simp add: nearFaces_def)

lemma callSetVoxel_simps [simp]:
  "options (callSetVoxel v t c w) = options w"
  "generator (callSetVoxel v t c w) = generator w"
  "camChunkName (callSetVoxel v t c w) = camChunkName w"
  "camChunkPos (callSetVoxel v t c w) = camChunkPos w"
  "events (callSetVoxel v t c w) = events w"
  "nextRef (callSetVoxel v t c w) = nextRef w"
  "dirtyChunks (callSetVoxel v t c w) = dirtyChunks w"
  "chunks (callSetVoxel v t c w) = chunks w"
  "heap (callSetVoxel v t c w) = (heap w)(c := Chunk_setVoxel v t (heap w c))"
  by (simp_all add: callSetVoxel_def)

lemma Chunk_setVoxel_idem [simp]:
  "Chunk_setVoxel v t (Chunk_setVoxel v t c) = Chunk_setVoxel v t c"
  by (simp add: Chunk_setVoxel_def covered_def toLocal_def)

lemma fold_callSetVoxel_frame [simp]:
  "options (fold (callSetVoxel v t) cs w) = options w"
  "generator (fold (callSetVoxel v t) cs w) = generator w"
  "camChunkName (fold (callSetVoxel v t) cs w) = camChunkName w"
  "camChunkPos (fold (callSetVoxel v t) cs w) = camChunkPos w"
  "events (fold (callSetVoxel v t) cs w) = events w"
  "nextRef (fold (callSetVoxel v t) cs w) = nextRef w"
  "dirtyChunks (fold (callSetVoxel v t) cs w) = dirtyChunks w"
  "chunks (fold (callSetVoxel v t) cs w) = chunks w"
  by (induction cs arbitrary: w; simp)+

lemma fold_callSetVoxel_heap:
  "heap (fold (callSetVoxel v t) cs w) r =
     (if r \<in> set cs then Chunk_setVoxel v t (heap w r) else heap w r)"
  by (induction cs arbitrary: w) auto

lemma checkNeighbor_frame [simp]:
  "options (checkNeighbor v t c w) = options w"
  "generator (checkNeighbor v t c w) = generator w"
  "camChunkName (checkNeighbor v t c w) = camChunkName w"
  "camChunkPos (checkNeighbor v t c w) = camChunkPos w"
  "nextRef (checkNeighbor v t c w) = nextRef w"
  "dirtyChunks (checkNeighbor v t c w) = dirtyChunks w"
  "chunks (checkNeighbor v t c w) = chunks w"
  "heap (checkNeighbor v t c w) = heap w"
  by (simp_all add: checkNeighbor_def)

lemma fold_checkNeighbor_frame [simp]:
  "options (fold (checkNeighbor v t) cs w) = options w"
  "generator (fold (checkNeighbor v t) cs w) = generator w"
  "camChunkName (fold (checkNeighbor v t) cs w) = camChunkName w"
  "camChunkPos (fold (checkNeighbor v t) cs w) = camChunkPos w"
  "nextRef (fold (checkNeighbor v t) cs w) = nextRef w"
  "dirtyChunks (fold (checkNeighbor v t) cs w) = dirtyChunks w"
  "chunks (fold (checkNeighbor v t) cs w) = chunks w"
  "heap (fold (checkNeighbor v t) cs w) = heap w"
  by (induction cs arbitrary: w; simp)+

lemma fold_checkNeighbor_silent:
  "\<forall>c\<in>set cs. Chunk_getVoxel (heap w c) v = t \<Longrightarrow> fold (checkNeighbor v t) cs w = w"
  by (induction cs arbitrary: w) (simp_all add: checkNeighbor_def)

lemma getNeighborChunksByVoxel_cong:
  "chunks w' = chunks w \<Longrightarrow> options w' = options w \<Longrightarrow>
     getNeighborChunksByVoxel v w' = getNeighborChunksByVoxel v w"
proof -
  assume c: "chunks w' = chunks w" and o: "options w' = options w"
  have "getChunkByCPos q w' = getChunkByCPos q w" for q
    by (simp add: getChunkByCPos_def getChunkByName_def c)
  then show ?thesis
    by (simp add: getNeighborChunksByVoxel_faces o)
qed

lemma setVoxel_heap:
  "heap (setVoxel v t w) r =
     (if r \<in> set (written v w) then Chunk_setVoxel v t (heap w r) else heap w r)"
proof -
  let ?w1 = "case getChunkByVoxel v w of Some c \<Rightarrow> callSetVoxel v t c w | None \<Rightarrow> w"
  have n: "getNeighborChunksByVoxel v ?w1 = getNeighborChunksByVoxel v w"
    by (rule getNeighborChunksByVoxel_cong) (simp_all split: option.splits)
  show ?thesis
    by (simp add: setVoxel_def Let_def n fold_callSetVoxel_heap written_def split: option.splits)
qed

lemma setVoxel_frame [simp]:
  "options (setVoxel v t w) = options w"
  "generator (setVoxel v t w) = generator w"
  "camChunkName (setVoxel v t w) = camChunkName w"
  "camChunkPos (setVoxel v t w) = camChunkPos w"
  "nextRef (setVoxel v t w) = nextRef w"
  "dirtyChunks (setVoxel v t w) = dirtyChunks w"
  "chunks (setVoxel v t w) = chunks w"
  by (simp_all add: setVoxel_def Let_def split: option.splits)

lemma set_map_filter: "set (List.map_filter f xs) = {y. \<exists>x\<in>set xs. f x = Some y}"
  by (induction xs) (auto simp: List.map_filter_simps split: option.splits)

lemma set_neighbours:
  "set (getNeighborChunksByVoxel v w) =
     {c. \<exists>d\<in>set (nearFaces (options w) v).
           getChunkByCPos (shift (mapVoxelPosToChunkPos v (chunkSize (options w))) d) w = Some c}"
  by (simp add: getNeighborChunksByVoxel_faces set_map_filter)

lemma local_decomp:
  fixes v s :: int
  shows "v - (v div s + k) * s = v mod s - k * s"
proof -
  have "v = (v div s) * s + v mod s" by simp
  then have "v - (v div s + k) * s = (v div s) * s + v mod s - (v div s + k) * s" by simp
  also have "\<dots> = v mod s - k * s" by (simp add: algebra_simps)
  finally show ?thesis .
qed

lemma neighbour_covered:
  assumes s: "0 < chunkSize opts"
    and d: "d \<in> set (nearFaces opts v)"
    and c: "coords c = shift (mapVoxelPosToChunkPos v (chunkSize opts)) d"
    and sz: "size_c c = chunkSize opts" and pd: "padding_c c = chunkPadding opts"
  shows "covered c v"
proof -
  obtain vx vy vz where v: "v = (vx, vy, vz)" by (cases v) auto
  have m: "0 \<le> vx mod chunkSize opts" "vx mod chunkSize opts < chunkSize opts"
    "0 \<le> vy mod chunkSize opts" "vy mod chunkSize opts < chunkSize opts"
    "0 \<le> vz mod chunkSize opts" "vz mod chunkSize opts < chunkSize opts"
    using s by simp_all
  have l: "vx - (vx div chunkSize opts + k) * chunkSize opts = vx mod chunkSize opts - k * chunkSize opts"
    "vy - (vy div chunkSize opts + k) * chunkSize opts = vy mod chunkSize opts - k * chunkSize opts"
    "vz - (vz div chunkSize opts + k) * chunkSize opts = vz mod chunkSize opts - k * chunkSize opts"
    for k
    by (rule local_decomp)+
  have l0: "vx - vx div chunkSize opts * chunkSize opts = vx mod chunkSize opts"
    "vy - vy div chunkSize opts * chunkSize opts = vy mod chunkSize opts"
    "vz - vz div chunkSize opts * chunkSize opts = vz mod chunkSize opts"
    using l [of 0] by simp_all
  from d consider "d = (- 1, 0, 0)" "vx mod chunkSize opts < chunkPadding opts"
    | "d = (0, - 1, 0)" "vy mod chunkSize opts < chunkPadding opts"
    | "d = (0, 0, - 1)" "vz mod chunkSize opts < chunkPadding opts"
    | "d = (1, 0, 0)" "vx mod chunkSize opts \<ge> chunkSize opts - chunkPadding opts"
    | "d = (0, 1, 0)" "vy mod chunkSize opts \<ge> chunkSize opts - chunkPadding opts"
    | "d = (0, 0, 1)" "vz mod chunkSize opts \<ge> chunkSize opts - chunkPadding opts"
    by (auto simp: nearFaces_def v mapVoxelPosToChunkLocalPos_def split: if_splits)
  then show ?thesis
  proof cases
    case 1
    have tl: "toLocal c v = (vx mod chunkSize opts + chunkSize opts, vy mod chunkSize opts, vz mod chunkSize opts)"
      using c sz l [of "- 1"] l0 1(1)
      by (simp add: toLocal_def v shift_def mapVoxelPosToChunkPos_def)
    show ?thesis
      unfolding covered_def tl sz pd prod.case using s m 1(2) by (intro conjI; linarith)
  next
    case 2
    have tl: "toLocal c v = (vx mod chunkSize opts, vy mod chunkSize opts + chunkSize opts, vz mod chunkSize opts)"
      using c sz l [of "- 1"] l0 2(1)
      by (simp add: toLocal_def v shift_def mapVoxelPosToChunkPos_def)
    show ?thesis
      unfolding covered_def tl sz pd prod.case using s m 2(2) by (intro conjI; linarith)
  next
    case 3
    have tl: "toLocal c v = (vx mod chunkSize opts, vy mod chunkSize opts, vz mod chunkSize opts + chunkSize opts)"
      using c sz l [of "- 1"] l0 3(1)
      by (simp add: toLocal_def v shift_def mapVoxelPosToChunkPos_def)
    show ?thesis
      unfolding covered_def tl sz pd prod.case using s m 3(2) by (intro conjI; linarith)
  next
    case 4
    have tl: "toLocal c v = (vx mod chunkSize opts - chunkSize opts, vy mod chunkSize opts, vz mod chunkSize opts)"
      using c sz l [of "1"] l0 4(1)
      by (simp add: toLocal_def v shift_def mapVoxelPosToChunkPos_def)
    show ?thesis
      unfolding covered_def tl sz pd prod.case using s m 4(2) by (intro conjI; linarith)
  next
    case 5
    have tl: "toLocal c v = (vx mod chunkSize opts, vy mod chunkSize opts - chunkSize opts, vz mod chunkSize opts)"
      using c sz l [of "1"] l0 5(1)
      by (simp add: toLocal_def v shift_def mapVoxelPosToChunkPos_def)
    show ?thesis
      unfolding covered_def tl sz pd prod.case using s m 5(2) by (intro conjI; linarith)
  next
    case 6
    have tl: "toLocal c v = (vx mod chunkSize opts, vy mod chunkSize opts, vz mod chunkSize opts - chunkSize opts)"
      using c sz l [of "1"] l0 6(1)
      by (simp add: toLocal_def v shift_def mapVoxelPosToChunkPos_def)
    show ?thesis
      unfolding covered_def tl sz pd prod.case using s m 6(2) by (intro conjI; linarith)
  qed
qed

lemma getVoxel_after_setVoxel:
  "covered c v \<Longrightarrow> Chunk_getVoxel (Chunk_setVoxel v t c) v = t"
  by (simp add: Chunk_getVoxel_def Chunk_setVoxel_def toLocal_def)

lemma setVoxel_events:
  assumes "\<forall>c\<in>set (getNeighborChunksByVoxel v w). Chunk_getVoxel (heap (setVoxel v t w) c) v = t"
  shows "events (setVoxel v t w) = events w"
proof -
  let ?w1 = "case getChunkByVoxel v w of Some c \<Rightarrow> callSetVoxel v t c w | None \<Rightarrow> w"
  let ?w2 = "fold (callSetVoxel v t) (getNeighborChunksByVoxel v w) ?w1"
  have n: "getNeighborChunksByVoxel v ?w1 = getNeighborChunksByVoxel v w"
    by (rule getNeighborChunksByVoxel_cong) (simp_all split: option.splits)
  have e: "setVoxel v t w = fold (checkNeighbor v t) (getNeighborChunksByVoxel v w) ?w2"
    by (simp add: setVoxel_def Let_def n)
  have h: "heap (setVoxel v t w) = heap ?w2"
    by (simp add: e)
  from assms have "fold (checkNeighbor v t) (getNeighborChunksByVoxel v w) ?w2 = ?w2"
    by (intro fold_checkNeighbor_silent) (simp add: h)
  with e have "setVoxel v t w = ?w2" by simp
  then show ?thesis
    by (simp split: option.splits)
qed

section \<open>Camera tracking\<close>



lemma createChunk_commute:
  "createChunk q (w\<lparr>camChunkName := a, camChunkPos := b, events := e\<rparr>) =
     (createChunk q w)\<lparr>camChunkName := a, camChunkPos := b, events := e\<rparr>"
  by (simp add: createChunk_def setChunk_def Let_def)

lemma fold_createChunk_commute:
  "fold createChunk ms (w\<lparr>camChunkName := a, camChunkPos := b, events := e\<rparr>) =
     (fold createChunk ms w)\<lparr>camChunkName := a, camChunkPos := b, events := e\<rparr>"
  by (induction ms arbitrary: w) (simp_all add: createChunk_commute)

lemma fillTargets_commute:
  "fillTargets cam (w\<lparr>camChunkName := a, camChunkPos := b, events := e\<rparr>) = fillTargets cam w"
  by (simp add: fillTargets_def getChunkByCPos_def getChunkByName_def)

lemma surroundLoops_commute:
  "surroundLoops cam (w\<lparr>camChunkName := a, camChunkPos := b, events := e\<rparr>) =
     (surroundLoops cam w)\<lparr>camChunkName := a, camChunkPos := b, events := e\<rparr>"
  by (simp add: surroundLoops_create fillTargets_commute fold_createChunk_commute)

lemma surroundLoops_frame [simp]:
  "options (surroundLoops cam w) = options w"
  "generator (surroundLoops cam w) = generator w"
  "camChunkName (surroundLoops cam w) = camChunkName w"
  "camChunkPos (surroundLoops cam w) = camChunkPos w"
  "events (surroundLoops cam w) = events w"
  by (simp_all add: surroundLoops_create)

lemma actionEvents_no_signal:
  "e \<in> set (actionEvents a c) \<Longrightarrow> e = CallAddToScene c \<or> e = CallBuildMesh c"
  by (cases a) simp_all

lemma sweepEvents_no_signal:
  "e \<in> set (sweepEvents w q) \<Longrightarrow> (\<exists>c. e = CallAddToScene c \<or> e = CallBuildMesh c)"
  by (auto simp: sweepEvents_def split: option.splits dest: actionEvents_no_signal)

lemma checkCamChunk_same:
  assumes "camChunkName w = Some (getChunkName (mapVoxelPosToChunkPos pos (chunkSize (options w))))"
    and "camChunkPos w = Some cam"
  shows "checkCamChunk pos w = Inr (sweepLoops cam (renderRadius (options w)) w)"
  using assms by (simp add: checkCamChunk_def Let_def)

lemma checkCamChunk_changed:
  assumes "camChunkName w \<noteq> Some (getChunkName (mapVoxelPosToChunkPos pos (chunkSize (options w))))"
  shows "checkCamChunk pos w =
     Inr (sweepLoops (mapVoxelPosToChunkPos pos (chunkSize (options w))) (renderRadius (options w))
       ((surroundLoops (mapVoxelPosToChunkPos pos (chunkSize (options w))) w)
          \<lparr>camChunkName := Some (getChunkName (mapVoxelPosToChunkPos pos (chunkSize (options w)))),
           camChunkPos := Some (mapVoxelPosToChunkPos pos (chunkSize (options w))),
           events := events w @ [EmitChunkChanged (mapVoxelPosToChunkPos pos (chunkSize (options w)))]\<rparr>))"
proof -
  let ?p = "mapVoxelPosToChunkPos pos (chunkSize (options w))"
  have e: "(emit (EmitChunkChanged ?p) w)\<lparr>camChunkName := Some (getChunkName ?p), camChunkPos := Some ?p\<rparr>
      = w\<lparr>camChunkName := Some (getChunkName ?p), camChunkPos := Some ?p,
          events := events w @ [EmitChunkChanged ?p]\<rparr>"
    by (simp add: emit_def)
  show ?thesis
    using assms
    by (simp add: checkCamChunk_def Let_def e surroundCamChunks_def surroundLoops_commute
        del: getChunkName_inj)
qed

section \<open>The "data needed" signal\<close>

lemma dataNeededChunks_simps [simp]:
  "dataNeededChunks [] = []"
  "dataNeededChunks (es @ es') = dataNeededChunks es @ dataNeededChunks es'"
  "dataNeededChunks (EmitDataNeeded c # es) = c # dataNeededChunks es"
  "dataNeededChunks (EmitChunkChanged q # es) = dataNeededChunks es"
  "dataNeededChunks (CallGenerate c # es) = dataNeededChunks es"
  "dataNeededChunks (CallBuildMesh c # es) = dataNeededChunks es"
  "dataNeededChunks (CallAddToScene c # es) = dataNeededChunks es"
  "dataNeededChunks (ConsoleLog a b # es) = dataNeededChunks es"
  by (simp_all add: dataNeededChunks_def List.map_filter_simps map_filter_append)

lemma dataNeededChunks_none:
  "(\<forall>e\<in>set es. \<forall>c. e \<noteq> EmitDataNeeded c) \<Longrightarrow> dataNeededChunks es = []"
proof (induction es)
  case Nil
  show ?case by simp
next
  case (Cons e es)
  then show ?case by (cases e) simp_all
qed

lemma dataNeededChunks_sweep:
  "dataNeededChunks (concat (map (sweepEvents w) qs)) = []"
  by (rule dataNeededChunks_none) (auto dest: sweepEvents_no_signal)

lemma drainEntry_dataNeeded:
  "generator w \<noteq> None \<Longrightarrow>
     dataNeededChunks (events (drainEntry c w)) = dataNeededChunks (events w)"
  by (auto simp: drainEntry_def Let_def events_requestChunkData)

lemma meshDirtyLoop_dataNeeded:
  "generator w \<noteq> None \<Longrightarrow>
     dataNeededChunks (events (fst (meshDirtyLoop count w))) = dataNeededChunks (events w)"
proof (induction count w rule: meshDirtyLoop.induct)
  case (1 count w)
  show ?case
  proof (cases "count \<le> maxChunkPerFrame (options w) \<and> length (dirtyChunks w) > 0")
    case False
    then show ?thesis by (simp add: meshDirtyLoop.simps [of count w])
  next
    case True
    then obtain chunk rest where q: "dirtyChunks w = chunk # rest"
      by (cases "dirtyChunks w") auto
    let ?w = "drainEntry chunk (w\<lparr>dirtyChunks := rest\<rparr>)"
    have g: "generator ?w \<noteq> None"
      using "1.prems" by simp
    have "dataNeededChunks (events (fst (meshDirtyLoop (count + 1) ?w))) = dataNeededChunks (events ?w)"
      by (rule "1.IH" [OF True q g])
    also have "\<dots> = dataNeededChunks (events w)"
      using "1.prems" drainEntry_dataNeeded [of "w\<lparr>dirtyChunks := rest\<rparr>" chunk] by simp
    finally show ?thesis
      using True q by (simp add: meshDirtyLoop.simps [of count w])
  qed
qed

lemma meshDirtyChunks_dataNeeded:
  "generator w \<noteq> None \<Longrightarrow>
     dataNeededChunks (events (meshDirtyChunks w)) = dataNeededChunks (events w)"
  by (simp add: meshDirtyChunks_def meshDirtyTrace_def meshDirtyLoop_dataNeeded)

lemma checkCamChunk_dataNeeded:
  assumes "checkCamChunk pos w = Inr w'"
  shows "dataNeededChunks (events w') = dataNeededChunks (events w) \<and> generator w' = generator w"
proof (cases "camChunkName w = Some (getChunkName (mapVoxelPosToChunkPos pos (chunkSize (options w))))")
  case True
  with assms obtain cam where "camChunkPos w = Some cam"
    by (cases "camChunkPos w") (auto simp: checkCamChunk_def Let_def)
  from checkCamChunk_same [OF True this] assms show ?thesis
    by (auto simp: sweepLoops_events dataNeededChunks_sweep)
next
  case False
  from checkCamChunk_changed [OF False] assms show ?thesis
    by (auto simp: sweepLoops_events dataNeededChunks_sweep)
qed

section \<open>Drains of short queues\<close>

lemma scenario_drain:
  assumes m: "maxChunkPerFrame (options w) = 1"
    and q: "dirtyChunks w = [a, b, c, d, e]"
    and fa: "\<not> isInitialized (heap w a)" "\<not> isPending (heap w a)"
    and fb: "\<not> isInitialized (heap w b)" "\<not> isPending (heap w b)"
  shows "dirtyChunks (meshDirtyChunks w) = [c, d, e, a, b] \<and>
    (\<exists>es. events (meshDirtyChunks w) = events w @ es \<and>
       length (List.map_filter requestedChunk es) \<le> 2 \<and>
       set (List.map_filter requestedChunk es) \<subseteq> {a, b}) \<and>
    (\<forall>r. isInitialized (heap (meshDirtyChunks w) r) = isInitialized (heap w r))"
proof -
  let ?w1 = "drainEntry a (w\<lparr>dirtyChunks := [b, c, d, e]\<rparr>)"
  let ?w2 = "drainEntry b (?w1\<lparr>dirtyChunks := [c, d, e, a]\<rparr>)"
  let ?ra = "case generator w of None \<Rightarrow> EmitDataNeeded a | Some g \<Rightarrow> CallGenerate a"
  let ?rb = "case generator w of None \<Rightarrow> EmitDataNeeded b | Some g \<Rightarrow> CallGenerate b"
  have q1: "dirtyChunks ?w1 = [b, c, d, e, a]"
    using fa by (simp add: dirtyChunks_drainEntry)
  have q2: "dirtyChunks ?w2 = [c, d, e, a, b]"
    using fb by (simp add: dirtyChunks_drainEntry drainEntry_def Let_def)
  have r: "meshDirtyChunks w = ?w2"
    using m q q1 q2
    by (simp add: meshDirtyChunks_def meshDirtyTrace_def meshDirtyLoop.simps [of 0]
        meshDirtyLoop.simps [of 1] meshDirtyLoop.simps [of 2])
  have e1: "events ?w1 = events w @ [?ra]"
    using fa by (simp add: drainEntry_def Let_def events_requestChunkData)
  have e2: "events ?w2 = events ?w1 \<or> events ?w2 = events ?w1 @ [?rb]"
    using fb by (simp add: drainEntry_def Let_def events_requestChunkData)
  have ra: "List.map_filter requestedChunk [?ra] = [a]"
    and rab: "List.map_filter requestedChunk [?ra, ?rb] = [a, b]"
    by (simp_all add: List.map_filter_simps split: option.splits)
  from e1 e2 consider "events ?w2 = events w @ [?ra]" | "events ?w2 = events w @ [?ra, ?rb]"
    by auto
  then have "\<exists>es. events ?w2 = events w @ es \<and>
       length (List.map_filter requestedChunk es) \<le> 2 \<and>
       set (List.map_filter requestedChunk es) \<subseteq> {a, b}"
  proof cases
    case 1
    with ra show ?thesis by (intro exI [of _ "[?ra]"]) simp
  next
    case 2
    with rab show ?thesis by (intro exI [of _ "[?ra, ?rb]"]) simp
  qed
  moreover have "\<forall>r. isInitialized (heap ?w2 r) = isInitialized (heap w r)"
    by (simp add: drainEntry_def Let_def)
  ultimately show ?thesis
    by (simp only: r q2) simp
qed

lemma meshDirtyChunks_single:
  assumes g: "generator w = Some g" and q: "dirtyChunks w = [c]"
    and m: "maxChunkPerFrame (options w) = 0"
    and f: "\<not> isInitialized (heap w c)" "\<not> isPending (heap w c)"
  shows "meshDirtyChunks w = w\<lparr>events := events w @ [CallGenerate c]\<rparr>"
  using assms
  by (simp add: meshDirtyChunks_def meshDirtyTrace_def meshDirtyLoop.simps [of 0]
      meshDirtyLoop.simps [of 1] drainEntry_def Let_def requestChunkData_def emit_def)

section \<open>The sample states\<close>

lemma storeConsistent_world_six: "storeConsistent world_six"
  unfolding storeConsistent_def getChunkByCPos_def getChunkByName_def
  by (auto simp: world_six_def World_new_def Chunk_new_def defaultWorldOptions_def
      split: if_splits)

lemma storeConsistent_named: "storeConsistent w \<Longrightarrow> storeNamed w"
  by (simp add: storeConsistent_def storeNamed_def)

lemma world_q5_simps:
  "maxChunkPerFrame (options world_q5) = 1"
  "dirtyChunks world_q5 = [4, 3, 2, 1, 0]"
  "generator world_q5 = Some SinCosGenerator"
  "events world_q5 = []"
  "\<not> isInitialized (heap world_q5 r)"
  "\<not> isPending (heap world_q5 r)"
  by (simp_all add: world_q5_def World_new_def defaultWorldOptions_def Chunk_new_def)

lemma world_q1_simps:
  "maxChunkPerFrame (options world_q1) = 0"
  "dirtyChunks world_q1 = [0]"
  "generator world_q1 = Some SinCosGenerator"
  "events world_q1 = []"
  "\<not> isInitialized (heap world_q1 r)"
  "\<not> isPending (heap world_q1 r)"
  by (simp_all add: world_q1_def World_new_def defaultWorldOptions_def Chunk_new_def)

lemma world_nogen_simps:
  "generator world_nogen = None"
  "events world_nogen = []"
  "isEmpty (heap world_nogen 0)"
  "\<not> isPending (heap world_nogen 0)"
  by (simp_all add: world_nogen_def World_new_def defaultWorldOptions_def Chunk_new_def)

section \<open>The store invariant\<close>

text \<open>
  A fresh world has a consistent store, and ticks and voxel edits keep it consistent: the
  region fill builds every chunk with the current options and stores it under its own
  name, and nothing else touches a chunk's coordinates, size or padding.
\<close>

lemma storeConsistent_World_new: "storeConsistent (World_new opts) \<and> storeFresh (World_new opts)"
  by (simp add: storeConsistent_def storeFresh_def World_new_def getChunkByCPos_def
      getChunkByName_def)

lemma createChunk_storeConsistent:
  assumes "storeConsistent w" and "storeFresh w"
  shows "storeConsistent (createChunk q w) \<and> storeFresh (createChunk q w)"
proof -
  have "coords (heap (createChunk q w) r) = q' \<and>
      size_c (heap (createChunk q w) r) = chunkSize (options w) \<and>
      padding_c (heap (createChunk q w) r) = chunkPadding (options w)"
    if g: "getChunkByCPos q' (createChunk q w) = Some r" for q' r
  proof (cases "q' = q")
    case True
    with g show ?thesis
      by (simp add: getChunkByCPos_def getChunkByName_def Chunk_new_def)
  next
    case False
    with g have o: "getChunkByCPos q' w = Some r"
      by (simp add: getChunkByCPos_def getChunkByName_def)
    with assms(2) have "r < nextRef w"
      by (auto simp: storeFresh_def getChunkByCPos_def getChunkByName_def)
    moreover from o assms(1) have "coords (heap w r) = q'"
      "size_c (heap w r) = chunkSize (options w)" "padding_c (heap w r) = chunkPadding (options w)"
      unfolding storeConsistent_def by blast+
    ultimately show ?thesis
      by simp
  qed
  moreover have "storeFresh (createChunk q w)"
    using assms(2) by (auto simp: storeFresh_def less_Suc_eq)
  ultimately show ?thesis
    by (simp add: storeConsistent_def)
qed

lemma fold_createChunk_storeConsistent:
  "storeConsistent w \<Longrightarrow> storeFresh w \<Longrightarrow>
     storeConsistent (fold createChunk ms w) \<and> storeFresh (fold createChunk ms w)"
  by (induction ms arbitrary: w) (simp_all add: createChunk_storeConsistent)

lemma storeConsistent_cong:
  assumes "chunks w' = chunks w" and "options w' = options w" and "nextRef w' = nextRef w"
    and "\<And>r. coords (heap w' r) = coords (heap w r)"
    and "\<And>r. size_c (heap w' r) = size_c (heap w r)"
    and "\<And>r. padding_c (heap w' r) = padding_c (heap w r)"
  shows "storeConsistent w' = storeConsistent w" and "storeFresh w' = storeFresh w"
  using assms
  by (simp_all add: storeConsistent_def storeFresh_def getChunkByCPos_def getChunkByName_def)

lemma drainEntry_shape:
  "coords (heap (drainEntry c w) r) = coords (heap w r)"
  "size_c (heap (drainEntry c w) r) = size_c (heap w r)"
  "padding_c (heap (drainEntry c w) r) = padding_c (heap w r)"
  by (simp_all add: drainEntry_def Let_def requestChunkData_def split: option.splits)

lemma meshDirtyLoop_shape:
  "chunks (fst (meshDirtyLoop count w)) = chunks w \<and>
   options (fst (meshDirtyLoop count w)) = options w \<and>
   nextRef (fst (meshDirtyLoop count w)) = nextRef w \<and>
   coords (heap (fst (meshDirtyLoop count w)) r) = coords (heap w r) \<and>
   size_c (heap (fst (meshDirtyLoop count w)) r) = size_c (heap w r) \<and>
   padding_c (heap (fst (meshDirtyLoop count w)) r) = padding_c (heap w r)"
proof (induction count w rule: meshDirtyLoop.induct)
  case (1 count w)
  show ?case
  proof (cases "count \<le> maxChunkPerFrame (options w) \<and> length (dirtyChunks w) > 0")
    case False
    then show ?thesis by (simp add: meshDirtyLoop.simps [of count w])
  next
    case True
    then obtain chunk rest where q: "dirtyChunks w = chunk # rest"
      by (cases "dirtyChunks w") auto
    from "1.IH" [OF True q] True q show ?thesis
      by (simp add: meshDirtyLoop.simps [of count w] drainEntry_shape)
  qed
qed

lemma meshDirtyChunks_storeConsistent:
  "storeConsistent (meshDirtyChunks w) = storeConsistent w"
  "storeFresh (meshDirtyChunks w) = storeFresh w"
  by (rule storeConsistent_cong; simp add: meshDirtyChunks_def meshDirtyTrace_def meshDirtyLoop_shape)+

lemma checkCamChunk_storeConsistent:
  assumes "storeConsistent w" and "storeFresh w" and "checkCamChunk pos w = Inr w'"
  shows "storeConsistent w' \<and> storeFresh w'"
proof (cases "camChunkName w = Some (getChunkName (mapVoxelPosToChunkPos pos (chunkSize (options w))))")
  case True
  with assms(3) obtain cam where "camChunkPos w = Some cam"
    by (cases "camChunkPos w") (auto simp: checkCamChunk_def Let_def)
  from checkCamChunk_same [OF True this] assms(3)
  have w': "w' = sweepLoops cam (renderRadius (options w)) w"
    by simp
  have "storeConsistent w' = storeConsistent w" "storeFresh w' = storeFresh w"
    by (rule storeConsistent_cong; simp add: w' sweepLoops_events)+
  with assms show ?thesis by simp
next
  case False
  let ?p = "mapVoxelPosToChunkPos pos (chunkSize (options w))"
  let ?w1 = "surroundLoops ?p w"
  from checkCamChunk_changed [OF False] assms(3)
  have w': "w' = sweepLoops ?p (renderRadius (options w))
       (?w1\<lparr>camChunkName := Some (getChunkName ?p), camChunkPos := Some ?p,
          events := events w @ [EmitChunkChanged ?p]\<rparr>)"
    by simp
  have "storeConsistent w' = storeConsistent ?w1" "storeFresh w' = storeFresh ?w1"
    by (rule storeConsistent_cong; simp add: w' sweepLoops_events)+
  with assms(1,2) show ?thesis
    by (simp add: surroundLoops_create fold_createChunk_storeConsistent)
qed

lemma tick_storeConsistent:
  assumes "storeConsistent w" and "storeFresh w" and "tick pos w = Inr w'"
  shows "storeConsistent w' \<and> storeFresh w'"
proof -
  from assms(3) obtain w1 where c: "checkCamChunk pos w = Inr w1" and w': "w' = meshDirtyChunks w1"
    by (auto simp: tick_def split: sum.splits)
  from checkCamChunk_storeConsistent [OF assms(1,2) c] show ?thesis
    by (simp add: w' meshDirtyChunks_storeConsistent)
qed

lemma Chunk_setVoxel_shape [simp]:
  "coords (Chunk_setVoxel v t c) = coords c"
  "size_c (Chunk_setVoxel v t c) = size_c c"
  "padding_c (Chunk_setVoxel v t c) = padding_c c"
  by (simp_all add: Chunk_setVoxel_def)

lemma setVoxel_storeConsistent:
  "storeConsistent (setVoxel v t w) = storeConsistent w"
  "storeFresh (setVoxel v t w) = storeFresh w"
  by (rule storeConsistent_cong; simp add: setVoxel_heap)+

section \<open>The claims\<close>

text \<open>
  Claim C1. With the camera chunk set and a render radius that is not negative, the
  region fill (\<open>surroundCamChunks\<close>) returns; it runs \<open>fillAt\<close> over the coordinates of
  \<open>activeRegion\<close>, which are exactly the grid coordinates at squared distance at most
  \<open>renderRadius * renderRadius\<close> from the camera chunk (the boundary included), each once.
  The coordinates among them that had no chunk (\<open>fillTargets\<close>) each get a newly
  constructed chunk object, built from the current size, dimension and padding, stored
  under the coordinate's name, and put on the front of the queue, so the queue is the new
  chunks, newest first, followed by the old queue. No other store entry and no existing
  chunk object changes, so no chunk is created at any other coordinate.
\<close>

theorem surroundCamChunks_fill:
  assumes cam: "camChunkPos w = Some cam" and r: "0 \<le> renderRadius (options w)"
  shows "surroundCamChunks w = Inr (surroundLoops cam w) \<and>
    surroundLoops cam w = fold fillAt (activeRegion cam (renderRadius (options w))) w \<and>
    set (activeRegion cam (renderRadius (options w))) =
      {q. dist2 q cam \<le> renderRadius (options w) * renderRadius (options w)} \<and>
    distinct (activeRegion cam (renderRadius (options w))) \<and>
    set (fillTargets cam w) =
      {q. dist2 q cam \<le> renderRadius (options w) * renderRadius (options w) \<and>
          getChunkByCPos q w = None} \<and>
    distinct (fillTargets cam w) \<and>
    nextRef (surroundLoops cam w) = nextRef w + length (fillTargets cam w) \<and>
    dirtyChunks (surroundLoops cam w) =
      rev [nextRef w..<nextRef w + length (fillTargets cam w)] @ dirtyChunks w \<and>
    (\<forall>i<length (fillTargets cam w).
       getChunkByCPos (fillTargets cam w ! i) (surroundLoops cam w) = Some (nextRef w + i) \<and>
       heap (surroundLoops cam w) (nextRef w + i) =
         Chunk_new (fillTargets cam w ! i) (chunkSize (options w)) (dimension (options w))
           (chunkPadding (options w))) \<and>
    (\<forall>q. q \<notin> set (fillTargets cam w) \<longrightarrow>
       getChunkByCPos q (surroundLoops cam w) = getChunkByCPos q w) \<and>
    (\<forall>k. k \<notin> getChunkName ` set (fillTargets cam w) \<longrightarrow>
       chunks (surroundLoops cam w) k = chunks w k) \<and>
    (\<forall>c<nextRef w. heap (surroundLoops cam w) c = heap w c) \<and>
    events (surroundLoops cam w) = events w"
proof -
  have 1: "surroundCamChunks w = Inr (surroundLoops cam w)"
    by (simp add: surroundCamChunks_def cam)
  have 2: "surroundLoops cam w = fold fillAt (activeRegion cam (renderRadius (options w))) w"
    by (rule surroundLoops_fold)
  have 3: "set (activeRegion cam (renderRadius (options w))) =
      {q. dist2 q cam \<le> renderRadius (options w) * renderRadius (options w)}"
    by (rule set_activeRegion [OF r])
  have 4: "distinct (activeRegion cam (renderRadius (options w)))"
    by (rule distinct_activeRegion)
  have 5: "set (fillTargets cam w) =
      {q. dist2 q cam \<le> renderRadius (options w) * renderRadius (options w) \<and>
          getChunkByCPos q w = None}"
    by (rule set_fillTargets [OF r])
  have 6: "distinct (fillTargets cam w)"
    by (rule distinct_fillTargets)
  have 7: "nextRef (surroundLoops cam w) = nextRef w + length (fillTargets cam w)"
    by (simp add: surroundLoops_create)
  have 8: "dirtyChunks (surroundLoops cam w) =
      rev [nextRef w..<nextRef w + length (fillTargets cam w)] @ dirtyChunks w"
    by (simp add: surroundLoops_create fold_createChunk_queue)
  have 9: "\<forall>i<length (fillTargets cam w).
       getChunkByCPos (fillTargets cam w ! i) (surroundLoops cam w) = Some (nextRef w + i) \<and>
       heap (surroundLoops cam w) (nextRef w + i) =
         Chunk_new (fillTargets cam w ! i) (chunkSize (options w)) (dimension (options w))
           (chunkPadding (options w))"
    by (simp add: surroundLoops_create getChunkByCPos_def getChunkByName_def
        fold_createChunk_chunks_new [OF 6] fold_createChunk_heap_new)
  have 11: "\<forall>k. k \<notin> getChunkName ` set (fillTargets cam w) \<longrightarrow>
       chunks (surroundLoops cam w) k = chunks w k"
    by (simp add: surroundLoops_create fold_createChunk_chunks_other)
  have 10: "\<forall>q. q \<notin> set (fillTargets cam w) \<longrightarrow>
       getChunkByCPos q (surroundLoops cam w) = getChunkByCPos q w"
    using 11 by (simp add: getChunkByCPos_def getChunkByName_def)
  have 12: "\<forall>c<nextRef w. heap (surroundLoops cam w) c = heap w c"
    by (simp add: surroundLoops_create fold_createChunk_heap_old)
  have 13: "events (surroundLoops cam w) = events w"
    by (simp add: surroundLoops_create)
  from 1 2 3 4 5 6 7 8 9 10 11 12 13 show ?thesis
    by blast
qed

theorem surroundCamChunks_fill_witness:
  "camChunkPos world_r1 = Some (0, 0, 0) \<and> 0 \<le> renderRadius (options world_r1) \<and>
   surroundCamChunks world_r1 = Inr (surroundLoops (0, 0, 0) world_r1) \<and>
   fillTargets (0, 0, 0) world_r1 =
     [(- 1, 0, 0), (0, - 1, 0), (0, 0, - 1), (0, 0, 0), (0, 0, 1), (0, 1, 0), (1, 0, 0)] \<and>
   nextRef (surroundLoops (0, 0, 0) world_r1) = 7 \<and>
   dirtyChunks (surroundLoops (0, 0, 0) world_r1) = [6, 5, 4, 3, 2, 1, 0] \<and>
   getChunkByCPos (0, 0, 1) (surroundLoops (0, 0, 0) world_r1) = Some 4 \<and>
   getChunkByCPos (1, 1, 0) (surroundLoops (0, 0, 0) world_r1) = None \<and>
   isDirty (heap (surroundLoops (0, 0, 0) world_r1) 4) \<and>
   \<not> isInitialized (heap (surroundLoops (0, 0, 0) world_r1) 4)"
proof -
  have h1: "camChunkPos world_r1 = Some (0, 0, 0)"
    by (simp add: world_r1_def)
  have h2: "0 \<le> renderRadius (options world_r1)"
    by (simp add: world_r1_def World_new_def defaultWorldOptions_def)
  have ft: "fillTargets (0, 0, 0) world_r1 =
     [(- 1, 0, 0), (0, - 1, 0), (0, 0, - 1), (0, 0, 0), (0, 0, 1), (0, 1, 0), (1, 0, 0)]"
    by code_simp
  have n: "nextRef world_r1 = 0" "dirtyChunks world_r1 = []"
    "getChunkByCPos (1, 1, 0) world_r1 = None"
    by (simp_all add: world_r1_def World_new_def getChunkByCPos_def getChunkByName_def)
  have u: "rev [0..<7] = [6, 5, 4, 3, 2, 1, 0::nat]"
    by code_simp
  note t = surroundCamChunks_fill [OF h1 h2]
  from t have a: "surroundCamChunks world_r1 = Inr (surroundLoops (0, 0, 0) world_r1)"
    by blast
  from t have "nextRef (surroundLoops (0, 0, 0) world_r1) =
      nextRef world_r1 + length (fillTargets (0, 0, 0) world_r1)"
    by blast
  then have b: "nextRef (surroundLoops (0, 0, 0) world_r1) = 7"
    by (simp add: ft n)
  from t have "dirtyChunks (surroundLoops (0, 0, 0) world_r1) =
      rev [nextRef world_r1..<nextRef world_r1 + length (fillTargets (0, 0, 0) world_r1)] @
      dirtyChunks world_r1"
    by blast
  then have c: "dirtyChunks (surroundLoops (0, 0, 0) world_r1) = [6, 5, 4, 3, 2, 1, 0]"
    by (simp only: ft n list.size) (simp add: u)
  from t have "\<forall>i<length (fillTargets (0, 0, 0) world_r1).
       getChunkByCPos (fillTargets (0, 0, 0) world_r1 ! i) (surroundLoops (0, 0, 0) world_r1) =
         Some (nextRef world_r1 + i) \<and>
       heap (surroundLoops (0, 0, 0) world_r1) (nextRef world_r1 + i) =
         Chunk_new (fillTargets (0, 0, 0) world_r1 ! i) (chunkSize (options world_r1))
           (dimension (options world_r1)) (chunkPadding (options world_r1))"
    by blast
  from this [rule_format, of 4]
  have d: "getChunkByCPos (0, 0, 1) (surroundLoops (0, 0, 0) world_r1) = Some 4"
    and e: "isDirty (heap (surroundLoops (0, 0, 0) world_r1) 4)"
      "\<not> isInitialized (heap (surroundLoops (0, 0, 0) world_r1) 4)"
    by (simp_all add: ft n Chunk_new_def)
  from t have "\<forall>q. q \<notin> set (fillTargets (0, 0, 0) world_r1) \<longrightarrow>
       getChunkByCPos q (surroundLoops (0, 0, 0) world_r1) = getChunkByCPos q world_r1"
    by blast
  from this [rule_format, of "(1, 1, 0)"]
  have f: "getChunkByCPos (1, 1, 0) (surroundLoops (0, 0, 0) world_r1) = None"
    by (simp add: ft n)
  from h1 h2 a ft b c d e f show ?thesis
    by simp
qed

text \<open>
  Claim C2. One call of \<open>meshDirtyChunks\<close> shifts at most \<open>maxChunkPerFrame + 1\<close> entries
  off the work queue, and when the queue holds at most that many entries, every one of
  them is shifted in that call: the first shifts are the queued entries, in order. The
  shifts are what happens to the queue: the queued entries followed by the entries put
  back (all of them shifted ones) are the shifted entries followed by the queue the call
  leaves. Fewer shifts than the budget leave an empty queue, and when no queued chunk is
  pending or uninitialized the shifted entries are the first \<open>maxChunkPerFrame + 1\<close> of
  the queue and the rest is the queue that is left.
\<close>

theorem meshDirtyChunks_budget:
  "length (snd (meshDirtyTrace w)) \<le> nat (maxChunkPerFrame (options w) + 1) \<and>
   (int (length (dirtyChunks w)) \<le> maxChunkPerFrame (options w) + 1 \<longrightarrow>
      take (length (dirtyChunks w)) (snd (meshDirtyTrace w)) = dirtyChunks w) \<and>
   (\<exists>rq. dirtyChunks w @ rq = snd (meshDirtyTrace w) @ dirtyChunks (meshDirtyChunks w) \<and>
      set rq \<subseteq> set (snd (meshDirtyTrace w)) \<and>
      length rq \<le> length (snd (meshDirtyTrace w))) \<and>
   (length (snd (meshDirtyTrace w)) < nat (maxChunkPerFrame (options w) + 1) \<longrightarrow>
      dirtyChunks (meshDirtyChunks w) = []) \<and>
   ((\<forall>c\<in>set (dirtyChunks w). isInitialized (heap w c) \<and> \<not> isPending (heap w c)) \<longrightarrow>
      snd (meshDirtyTrace w) = take (nat (maxChunkPerFrame (options w) + 1)) (dirtyChunks w) \<and>
      dirtyChunks (meshDirtyChunks w) =
        drop (nat (maxChunkPerFrame (options w) + 1)) (dirtyChunks w))"
proof -
  have 1: "length (snd (meshDirtyTrace w)) \<le> nat (maxChunkPerFrame (options w) + 1)"
    using meshDirtyLoop_length [of 0 w] by (simp add: meshDirtyTrace_def)
  have 2: "take (length (dirtyChunks w)) (snd (meshDirtyTrace w)) = dirtyChunks w"
    if "int (length (dirtyChunks w)) \<le> maxChunkPerFrame (options w) + 1"
    using meshDirtyLoop_take [of w "dirtyChunks w" "[]" 0] that
    by (simp add: meshDirtyTrace_def)
  have 3: "\<exists>rq. dirtyChunks w @ rq = snd (meshDirtyTrace w) @ dirtyChunks (meshDirtyChunks w) \<and>
      set rq \<subseteq> set (snd (meshDirtyTrace w)) \<and>
      length rq \<le> length (snd (meshDirtyTrace w))"
  proof (cases "length (dirtyChunks w) > 0")
    case True
    with meshDirtyLoop_queue [of w 0] show ?thesis
      by (simp add: meshDirtyChunks_def meshDirtyTrace_def)
  next
    case False
    then show ?thesis
      by (simp add: meshDirtyChunks_def meshDirtyTrace_def)
  qed
  have 4: "dirtyChunks (meshDirtyChunks w) = []"
    if "length (snd (meshDirtyTrace w)) < nat (maxChunkPerFrame (options w) + 1)"
  proof (cases "length (dirtyChunks w) > 0")
    case True
    with meshDirtyLoop_stop [of 0 w] that show ?thesis
      by (simp add: meshDirtyChunks_def meshDirtyTrace_def)
  next
    case False
    then show ?thesis
      by (simp add: meshDirtyChunks_def meshDirtyTrace_def)
  qed
  have 5: "snd (meshDirtyTrace w) = take (nat (maxChunkPerFrame (options w) + 1)) (dirtyChunks w) \<and>
      dirtyChunks (meshDirtyChunks w) =
        drop (nat (maxChunkPerFrame (options w) + 1)) (dirtyChunks w)"
    if "\<forall>c\<in>set (dirtyChunks w). isInitialized (heap w c) \<and> \<not> isPending (heap w c)"
  proof (cases "length (dirtyChunks w) > 0")
    case True
    with meshDirtyLoop_ready [OF that, of 0] show ?thesis
      by (simp add: meshDirtyChunks_def meshDirtyTrace_def)
  next
    case False
    then show ?thesis
      by (simp add: meshDirtyChunks_def meshDirtyTrace_def)
  qed
  from 1 2 3 4 5 show ?thesis
    by blast
qed

theorem meshDirtyChunks_budget_witness:
  "int (length (dirtyChunks world_q1)) \<le> maxChunkPerFrame (options world_q1) + 1 \<and>
   length (snd (meshDirtyTrace world_q1)) \<le> nat (maxChunkPerFrame (options world_q1) + 1) \<and>
   take (length (dirtyChunks world_q1)) (snd (meshDirtyTrace world_q1)) = dirtyChunks world_q1 \<and>
   snd (meshDirtyTrace world_q1) = [0] \<and>
   length (snd (meshDirtyTrace world_q5)) \<le> nat (maxChunkPerFrame (options world_q5) + 1) \<and>
   snd (meshDirtyTrace world_q5) = [4, 3] \<and>
   dirtyChunks world_q5 = [4, 3, 2, 1, 0] \<and>
   dirtyChunks (meshDirtyChunks world_q5) = [2, 1, 0, 4, 3] \<and>
   (\<exists>rq. dirtyChunks world_q5 @ rq =
      snd (meshDirtyTrace world_q5) @ dirtyChunks (meshDirtyChunks world_q5) \<and>
      set rq \<subseteq> set (snd (meshDirtyTrace world_q5)) \<and>
      length rq \<le> length (snd (meshDirtyTrace world_q5))) \<and>
   isInitialized (heap world_ready 0) \<and> \<not> isPending (heap world_ready 0) \<and>
   dirtyChunks world_ready = [4, 3, 2, 1, 0] \<and>
   snd (meshDirtyTrace world_ready) = [4, 3] \<and>
   dirtyChunks (meshDirtyChunks world_ready) = [2, 1, 0] \<and>
   length (snd (meshDirtyTrace (world_ready\<lparr>dirtyChunks := [4]\<rparr>))) <
     nat (maxChunkPerFrame (options (world_ready\<lparr>dirtyChunks := [4]\<rparr>)) + 1) \<and>
   dirtyChunks (meshDirtyChunks (world_ready\<lparr>dirtyChunks := [4]\<rparr>)) = []"
proof -
  let ?w4 = "world_ready\<lparr>dirtyChunks := [4]\<rparr>"
  have h: "int (length (dirtyChunks world_q1)) \<le> maxChunkPerFrame (options world_q1) + 1"
    by (simp add: world_q1_simps)
  have e1: "snd (meshDirtyTrace world_q1) = [0]"
    by code_simp
  have e5: "snd (meshDirtyTrace world_q5) = [4, 3]"
    "dirtyChunks (meshDirtyChunks world_q5) = [2, 1, 0, 4, 3]"
    by code_simp+
  have q5: "dirtyChunks world_q5 = [4, 3, 2, 1, 0]"
    by (simp add: world_q5_simps)
  have m: "maxChunkPerFrame (options world_ready) = 1" "maxChunkPerFrame (options ?w4) = 1"
    by (simp_all add: world_ready_def world_q5_simps)
  have qr: "dirtyChunks world_ready = [4, 3, 2, 1, 0]"
    by (simp add: world_ready_def world_q5_simps)
  have fr: "\<forall>c\<in>set (dirtyChunks world_ready).
      isInitialized (heap world_ready c) \<and> \<not> isPending (heap world_ready c)"
    "isInitialized (heap world_ready 0)" "\<not> isPending (heap world_ready 0)"
    by (simp_all add: world_ready_def world_q5_simps)
  have f4: "\<forall>c\<in>set (dirtyChunks ?w4). isInitialized (heap ?w4 c) \<and> \<not> isPending (heap ?w4 c)"
    by (simp add: world_ready_def world_q5_simps)
  note t1 = meshDirtyChunks_budget [of world_q1]
  note t5 = meshDirtyChunks_budget [of world_q5]
  note tr = meshDirtyChunks_budget [of world_ready]
  note t4 = meshDirtyChunks_budget [of ?w4]
  from t1 h have a: "length (snd (meshDirtyTrace world_q1)) \<le>
      nat (maxChunkPerFrame (options world_q1) + 1)"
    "take (length (dirtyChunks world_q1)) (snd (meshDirtyTrace world_q1)) = dirtyChunks world_q1"
    by blast+
  from t5 have b: "length (snd (meshDirtyTrace world_q5)) \<le>
      nat (maxChunkPerFrame (options world_q5) + 1)"
    "\<exists>rq. dirtyChunks world_q5 @ rq =
      snd (meshDirtyTrace world_q5) @ dirtyChunks (meshDirtyChunks world_q5) \<and>
      set rq \<subseteq> set (snd (meshDirtyTrace world_q5)) \<and>
      length rq \<le> length (snd (meshDirtyTrace world_q5))"
    by blast+
  from tr fr(1) have "snd (meshDirtyTrace world_ready) =
      take (nat (maxChunkPerFrame (options world_ready) + 1)) (dirtyChunks world_ready)"
    "dirtyChunks (meshDirtyChunks world_ready) =
      drop (nat (maxChunkPerFrame (options world_ready) + 1)) (dirtyChunks world_ready)"
    by blast+
  then have c: "snd (meshDirtyTrace world_ready) = [4, 3]"
    "dirtyChunks (meshDirtyChunks world_ready) = [2, 1, 0]"
    by (simp_all add: m qr eval_nat_numeral)
  from t4 f4 have "snd (meshDirtyTrace ?w4) =
      take (nat (maxChunkPerFrame (options ?w4) + 1)) (dirtyChunks ?w4)"
    by blast
  then have l4: "length (snd (meshDirtyTrace ?w4)) < nat (maxChunkPerFrame (options ?w4) + 1)"
    by (simp add: m)
  with t4 have d: "dirtyChunks (meshDirtyChunks ?w4) = []"
    by blast
  from h a e1 b e5 q5 fr(2,3) qr c l4 d show ?thesis
    by blast
qed

text \<open>
  Claim C3. What the scheduler does with an entry it shifted off the queue
  (\<open>drainEntry\<close>, applied by the loop to every shifted entry): a pending chunk goes to
  the rear of the queue and nothing else changes; otherwise a chunk that is not
  initialized gets a generation request and goes to the rear; otherwise a chunk that is
  meshing is dropped and nothing changes; otherwise a mesh build is triggered and the
  chunk is dropped. With \<open>maxChunkPerFrame = 1\<close> and a queue of five chunks that are
  neither initialized nor pending, one drain requests generation for at most two chunks
  (the first two), the queue afterwards holds all five, and none is initialized.
\<close>

theorem drainEntry_branches:
  "(isPending (heap w c) \<longrightarrow> drainEntry c w = w\<lparr>dirtyChunks := dirtyChunks w @ [c]\<rparr>) \<and>
   (\<not> isPending (heap w c) \<longrightarrow> \<not> isInitialized (heap w c) \<longrightarrow>
      drainEntry c w = (requestChunkData c w)\<lparr>dirtyChunks := dirtyChunks w @ [c]\<rparr> \<and>
      dirtyChunks (drainEntry c w) = dirtyChunks w @ [c] \<and>
      List.map_filter requestedChunk (events (drainEntry c w)) =
        List.map_filter requestedChunk (events w) @ [c]) \<and>
   (\<not> isPending (heap w c) \<longrightarrow> isInitialized (heap w c) \<longrightarrow> isMeshing (heap w c) \<longrightarrow>
      drainEntry c w = w) \<and>
   (\<not> isPending (heap w c) \<longrightarrow> isInitialized (heap w c) \<longrightarrow> \<not> isMeshing (heap w c) \<longrightarrow>
      drainEntry c w = w\<lparr>events := events w @ [CallBuildMesh c]\<rparr>) \<and>
   (count \<le> maxChunkPerFrame (options w) \<longrightarrow> dirtyChunks w = c # rest \<longrightarrow>
      meshDirtyLoop count w =
        apsnd ((#) c) (meshDirtyLoop (count + 1) (drainEntry c (w\<lparr>dirtyChunks := rest\<rparr>)))) \<and>
   (maxChunkPerFrame (options w) = 1 \<longrightarrow> dirtyChunks w = [a, b, c3, d, e] \<longrightarrow>
    (\<forall>r\<in>{a, b, c3, d, e}. \<not> isInitialized (heap w r) \<and> \<not> isPending (heap w r)) \<longrightarrow>
      dirtyChunks (meshDirtyChunks w) = [c3, d, e, a, b] \<and>
      (\<exists>es. events (meshDirtyChunks w) = events w @ es \<and>
         length (List.map_filter requestedChunk es) \<le> 2 \<and>
         set (List.map_filter requestedChunk es) \<subseteq> {a, b}) \<and>
      (\<forall>r. isInitialized (heap (meshDirtyChunks w) r) = isInitialized (heap w r)))"
proof -
  have 1: "isPending (heap w c) \<longrightarrow> drainEntry c w = w\<lparr>dirtyChunks := dirtyChunks w @ [c]\<rparr>"
    by (simp add: drainEntry_def)
  have 2: "\<not> isPending (heap w c) \<longrightarrow> \<not> isInitialized (heap w c) \<longrightarrow>
      drainEntry c w = (requestChunkData c w)\<lparr>dirtyChunks := dirtyChunks w @ [c]\<rparr> \<and>
      dirtyChunks (drainEntry c w) = dirtyChunks w @ [c] \<and>
      List.map_filter requestedChunk (events (drainEntry c w)) =
        List.map_filter requestedChunk (events w) @ [c]"
    by (simp add: drainEntry_def Let_def events_requestChunkData map_filter_append
        List.map_filter_simps split: option.splits)
  have 3: "\<not> isPending (heap w c) \<longrightarrow> isInitialized (heap w c) \<longrightarrow> isMeshing (heap w c) \<longrightarrow>
      drainEntry c w = w"
    by (simp add: drainEntry_def)
  have 4: "\<not> isPending (heap w c) \<longrightarrow> isInitialized (heap w c) \<longrightarrow> \<not> isMeshing (heap w c) \<longrightarrow>
      drainEntry c w = w\<lparr>events := events w @ [CallBuildMesh c]\<rparr>"
    by (simp add: drainEntry_def emit_def)
  have 5: "count \<le> maxChunkPerFrame (options w) \<longrightarrow> dirtyChunks w = c # rest \<longrightarrow>
      meshDirtyLoop count w =
        apsnd ((#) c) (meshDirtyLoop (count + 1) (drainEntry c (w\<lparr>dirtyChunks := rest\<rparr>)))"
    by (simp add: meshDirtyLoop.simps [of count w])
  have 6: "maxChunkPerFrame (options w) = 1 \<longrightarrow> dirtyChunks w = [a, b, c3, d, e] \<longrightarrow>
    (\<forall>r\<in>{a, b, c3, d, e}. \<not> isInitialized (heap w r) \<and> \<not> isPending (heap w r)) \<longrightarrow>
      dirtyChunks (meshDirtyChunks w) = [c3, d, e, a, b] \<and>
      (\<exists>es. events (meshDirtyChunks w) = events w @ es \<and>
         length (List.map_filter requestedChunk es) \<le> 2 \<and>
         set (List.map_filter requestedChunk es) \<subseteq> {a, b}) \<and>
      (\<forall>r. isInitialized (heap (meshDirtyChunks w) r) = isInitialized (heap w r))"
    using scenario_drain [of w a b c3 d e] by simp
  from 1 2 3 4 5 6 show ?thesis
    by blast
qed

theorem drainEntry_branches_witness:
  "isPending (heap world_flags 4) \<and>
   drainEntry 4 world_flags = world_flags\<lparr>dirtyChunks := dirtyChunks world_flags @ [4]\<rparr> \<and>
   \<not> isPending (heap world_flags 5) \<and> \<not> isInitialized (heap world_flags 5) \<and>
   dirtyChunks (drainEntry 5 world_flags) = dirtyChunks world_flags @ [5] \<and>
   List.map_filter requestedChunk (events (drainEntry 5 world_flags)) = [5] \<and>
   \<not> isPending (heap world_flags 2) \<and> isInitialized (heap world_flags 2) \<and>
   isMeshing (heap world_flags 2) \<and> drainEntry 2 world_flags = world_flags \<and>
   \<not> isPending (heap world_flags 1) \<and> isInitialized (heap world_flags 1) \<and>
   \<not> isMeshing (heap world_flags 1) \<and>
   drainEntry 1 world_flags = world_flags\<lparr>events := events world_flags @ [CallBuildMesh 1]\<rparr> \<and>
   maxChunkPerFrame (options world_q5) = 1 \<and> dirtyChunks world_q5 = [4, 3, 2, 1, 0] \<and>
   dirtyChunks (meshDirtyChunks world_q5) = [2, 1, 0, 4, 3] \<and>
   events (meshDirtyChunks world_q5) = [CallGenerate 4, CallGenerate 3] \<and>
   meshDirtyLoop 0 world_q5 =
     apsnd ((#) 4) (meshDirtyLoop (0 + 1) (drainEntry 4 (world_q5\<lparr>dirtyChunks := [3, 2, 1, 0]\<rparr>)))"
proof -
  have f4: "isPending (heap world_flags 4)"
    and f5: "\<not> isPending (heap world_flags 5)" "\<not> isInitialized (heap world_flags 5)"
    and f2: "\<not> isPending (heap world_flags 2)" "isInitialized (heap world_flags 2)"
      "isMeshing (heap world_flags 2)"
    and f1: "\<not> isPending (heap world_flags 1)" "isInitialized (heap world_flags 1)"
      "\<not> isMeshing (heap world_flags 1)"
    by (simp_all add: world_flags_def world_six_def World_new_def Chunk_new_def)
  have e: "List.map_filter requestedChunk (events world_flags) = []"
    by (simp add: world_flags_def world_six_def World_new_def List.map_filter_simps)
  have q: "maxChunkPerFrame (options world_q5) = 1" "dirtyChunks world_q5 = [4, 3, 2, 1, 0]"
    "0 \<le> maxChunkPerFrame (options world_q5)"
    by (simp_all add: world_q5_simps)
  have fq: "\<forall>r\<in>{4, 3, 2, 1, 0}. \<not> isInitialized (heap world_q5 r) \<and> \<not> isPending (heap world_q5 r)"
    by (simp add: world_q5_simps)
  have ev: "events (meshDirtyChunks world_q5) = [CallGenerate 4, CallGenerate 3]"
    by code_simp
  from drainEntry_branches [of world_flags 4] f4
  have a: "drainEntry 4 world_flags = world_flags\<lparr>dirtyChunks := dirtyChunks world_flags @ [4]\<rparr>"
    by blast
  from drainEntry_branches [of world_flags 5] f5
  have b: "dirtyChunks (drainEntry 5 world_flags) = dirtyChunks world_flags @ [5]"
    "List.map_filter requestedChunk (events (drainEntry 5 world_flags)) =
       List.map_filter requestedChunk (events world_flags) @ [5]"
    by blast+
  from drainEntry_branches [of world_flags 2] f2
  have c: "drainEntry 2 world_flags = world_flags"
    by blast
  from drainEntry_branches [of world_flags 1] f1
  have d: "drainEntry 1 world_flags = world_flags\<lparr>events := events world_flags @ [CallBuildMesh 1]\<rparr>"
    by blast
  from drainEntry_branches [of world_q5 4 0 "[3, 2, 1, 0]" 4 3 2 1 0] q fq
  have s: "dirtyChunks (meshDirtyChunks world_q5) = [2, 1, 0, 4, 3]"
    and l: "meshDirtyLoop 0 world_q5 =
     apsnd ((#) 4) (meshDirtyLoop (0 + 1) (drainEntry 4 (world_q5\<lparr>dirtyChunks := [3, 2, 1, 0]\<rparr>)))"
    by blast+
  from f4 f5 f2 f1 a b c d q s l ev e show ?thesis
    by simp
qed



text \<open>
  Claim C5, as amended. When \<open>setVoxel\<close> finds no owning chunk, nothing is written for
  the owner, but the write still goes to every existing neighbour across a face that the
  local position is within padding of; all other chunk objects, the store and the queue
  are unchanged, and the call changes nothing when there is no such neighbour.
\<close>

theorem setVoxel_absent_owner:
  assumes "getChunkByVoxel v w = None"
  shows "(\<forall>r. heap (setVoxel v t w) r =
       (if r \<in> set (getNeighborChunksByVoxel v w) then Chunk_setVoxel v t (heap w r)
        else heap w r)) \<and>
    chunks (setVoxel v t w) = chunks w \<and> dirtyChunks (setVoxel v t w) = dirtyChunks w \<and>
    (getNeighborChunksByVoxel v w = [] \<longrightarrow> setVoxel v t w = w)"
  using assms
  by (simp add: setVoxel_heap written_def) (simp add: setVoxel_def Let_def)

theorem setVoxel_absent_owner_witness:
  "getChunkByVoxel (0, 5, 5) world_left = None \<and>
   getNeighborChunksByVoxel (0, 5, 5) world_left = [0] \<and>
   heap (setVoxel (0, 5, 5) 7 world_left) 0 = Chunk_setVoxel (0, 5, 5) 7 (heap world_left 0) \<and>
   heap (setVoxel (0, 5, 5) 7 world_left) 1 = heap world_left 1 \<and>
   chunks (setVoxel (0, 5, 5) 7 world_left) = chunks world_left \<and>
   getChunkByVoxel (40, 5, 5) world_left = None \<and>
   getNeighborChunksByVoxel (40, 5, 5) world_left = [] \<and>
   setVoxel (40, 5, 5) 7 world_left = world_left"
proof -
  have h: "getChunkByVoxel (0, 5, 5) world_left = None"
    "getChunkByVoxel (40, 5, 5) world_left = None"
    by code_simp+
  have n: "getNeighborChunksByVoxel (0, 5, 5) world_left = [0]"
    "getNeighborChunksByVoxel (40, 5, 5) world_left = []"
    by code_simp+
  from setVoxel_absent_owner [OF h(1), of 7] n(1)
  have a: "heap (setVoxel (0, 5, 5) 7 world_left) 0 = Chunk_setVoxel (0, 5, 5) 7 (heap world_left 0)"
    "heap (setVoxel (0, 5, 5) 7 world_left) 1 = heap world_left 1"
    "chunks (setVoxel (0, 5, 5) 7 world_left) = chunks world_left"
    by simp_all
  from setVoxel_absent_owner [OF h(2), of 7] n(2)
  have b: "setVoxel (40, 5, 5) 7 world_left = world_left"
    by blast
  from h n a b show ?thesis
    by simp
qed

text \<open>
  Claim C5 as stated fails: in the world whose only chunk is (-1, 0, 0), the voxel
  (0, 5, 5) has no owning chunk, yet \<open>setVoxel\<close> changes the voxel data of chunk
  (-1, 0, 0), which reads 0 there before the call and 7 after it.
\<close>

theorem setVoxel_absent_owner_counterexample:
  "getChunkByVoxel (0, 5, 5) world_left = None \<and>
   getChunkByCPos (- 1, 0, 0) world_left = Some 0 \<and>
   Chunk_getVoxel (heap world_left 0) (0, 5, 5) = 0 \<and>
   Chunk_getVoxel (heap (setVoxel (0, 5, 5) 7 world_left) 0) (0, 5, 5) = 7"
  by code_simp

text \<open>
  Claim C6. The neighbours \<open>setVoxel\<close> writes to are the chunks stored at the
  coordinates across the faces the local position is within padding of (\<open>nearFaces\<close>),
  and only face-adjacent offsets occur. The chunk objects that receive the write are
  exactly the owner and these neighbours, each as if \<open>Chunk.setVoxel\<close> had been called
  on it with the same coordinates and type; every other object is unchanged. So with
  exactly one near face the write goes to the single chunk across it, if it exists, and
  in a store that keeps every chunk under its own coordinates the chunk at any other
  coordinate, a diagonal neighbour in particular, is not written.
\<close>

theorem setVoxel_propagation:
  "getNeighborChunksByVoxel v w =
     List.map_filter
       (\<lambda>d. getChunkByCPos (shift (mapVoxelPosToChunkPos v (chunkSize (options w))) d) w)
       (nearFaces (options w) v) \<and>
   set (nearFaces (options w) v) \<subseteq>
     {(- 1, 0, 0), (0, - 1, 0), (0, 0, - 1), (1, 0, 0), (0, 1, 0), (0, 0, 1)} \<and>
   distinct (nearFaces (options w) v) \<and>
   (\<forall>r. heap (setVoxel v t w) r =
      (if r \<in> set (written v w) then Chunk_setVoxel v t (heap w r) else heap w r)) \<and>
   chunks (setVoxel v t w) = chunks w \<and>
   (\<forall>d. nearFaces (options w) v = [d] \<longrightarrow>
      getNeighborChunksByVoxel v w =
        (case getChunkByCPos (shift (mapVoxelPosToChunkPos v (chunkSize (options w))) d) w of
           None \<Rightarrow> [] | Some c \<Rightarrow> [c])) \<and>
   (storeNamed w \<longrightarrow>
      (\<forall>q c. getChunkByCPos q w = Some c \<longrightarrow>
         q \<noteq> mapVoxelPosToChunkPos v (chunkSize (options w)) \<longrightarrow>
         q \<notin> shift (mapVoxelPosToChunkPos v (chunkSize (options w))) ` set (nearFaces (options w) v) \<longrightarrow>
         heap (setVoxel v t w) c = heap w c))"
proof -
  let ?cpos = "mapVoxelPosToChunkPos v (chunkSize (options w))"
  have 1: "getNeighborChunksByVoxel v w =
     List.map_filter (\<lambda>d. getChunkByCPos (shift ?cpos d) w) (nearFaces (options w) v)"
    by (rule getNeighborChunksByVoxel_faces)
  have 2: "set (nearFaces (options w) v) \<subseteq>
     {(- 1, 0, 0), (0, - 1, 0), (0, 0, - 1), (1, 0, 0), (0, 1, 0), (0, 0, 1)}"
    by (rule nearFaces_unit)
  have 3: "distinct (nearFaces (options w) v)"
    by (rule distinct_nearFaces)
  have 4: "\<forall>r. heap (setVoxel v t w) r =
      (if r \<in> set (written v w) then Chunk_setVoxel v t (heap w r) else heap w r)"
    by (simp add: setVoxel_heap)
  have 5: "chunks (setVoxel v t w) = chunks w"
    by simp
  have 6: "\<forall>d. nearFaces (options w) v = [d] \<longrightarrow>
      getNeighborChunksByVoxel v w =
        (case getChunkByCPos (shift ?cpos d) w of None \<Rightarrow> [] | Some c \<Rightarrow> [c])"
    by (simp add: 1 List.map_filter_simps split: option.splits)
  have 7: "heap (setVoxel v t w) c = heap w c"
    if st: "storeNamed w" and g: "getChunkByCPos q w = Some c" and q1: "q \<noteq> ?cpos"
      and q2: "q \<notin> shift ?cpos ` set (nearFaces (options w) v)" for q c
  proof -
    from st g have cq: "coords (heap w c) = q"
      unfolding storeNamed_def by blast
    have "c \<notin> set (written v w)"
    proof
      assume "c \<in> set (written v w)"
      then consider "getChunkByVoxel v w = Some c" | "c \<in> set (getNeighborChunksByVoxel v w)"
        by (auto simp: written_def split: option.splits)
      then show False
      proof cases
        case 1
        then have "getChunkByCPos ?cpos w = Some c"
          by (simp add: getChunkByVoxel_def)
        with st have "coords (heap w c) = ?cpos"
          unfolding storeNamed_def by blast
        with cq q1 show False by simp
      next
        case 2
        then obtain d where d: "d \<in> set (nearFaces (options w) v)"
          and "getChunkByCPos (shift ?cpos d) w = Some c"
          by (auto simp: set_neighbours)
        with st have "coords (heap w c) = shift ?cpos d"
          unfolding storeNamed_def by blast
        with cq q2 d show False by auto
      qed
    qed
    then show ?thesis
      by (simp add: setVoxel_heap)
  qed
  from 1 2 3 4 5 6 7 show ?thesis
    by blast
qed

theorem setVoxel_propagation_witness:
  "nearFaces (options world_six) (1, 5, 5) = [(- 1, 0, 0)] \<and>
   getChunkByCPos (shift (mapVoxelPosToChunkPos (1, 5, 5) (chunkSize (options world_six)))
     (- 1, 0, 0)) world_six = Some 1 \<and>
   getNeighborChunksByVoxel (1, 5, 5) world_six = [1] \<and>
   written (1, 5, 5) world_six = [0, 1] \<and>
   heap (setVoxel (1, 5, 5) 7 world_six) 1 = Chunk_setVoxel (1, 5, 5) 7 (heap world_six 1) \<and>
   storeNamed world_six \<and>
   getChunkByCPos (0, 1, 0) world_six = Some 5 \<and>
   heap (setVoxel (1, 5, 5) 7 world_six) 5 = heap world_six 5 \<and>
   nearFaces (options world_six) (0, 0, 0) = [(- 1, 0, 0), (0, - 1, 0), (0, 0, - 1)] \<and>
   getNeighborChunksByVoxel (0, 0, 0) world_six = [1, 2, 3] \<and>
   getChunkByCPos (- 1, - 1, 0) world_six = Some 4 \<and>
   heap (setVoxel (0, 0, 0) 7 world_six) 4 = heap world_six 4"
proof -
  have nf: "nearFaces (options world_six) (1, 5, 5) = [(- 1, 0, 0)]"
    "nearFaces (options world_six) (0, 0, 0) = [(- 1, 0, 0), (0, - 1, 0), (0, 0, - 1)]"
    by code_simp+
  have g: "getChunkByCPos (shift (mapVoxelPosToChunkPos (1, 5, 5) (chunkSize (options world_six)))
     (- 1, 0, 0)) world_six = Some 1"
    "getChunkByCPos (0, 1, 0) world_six = Some 5"
    "getChunkByCPos (- 1, - 1, 0) world_six = Some 4"
    by code_simp+
  have cp: "mapVoxelPosToChunkPos (1, 5, 5) (chunkSize (options world_six)) = (0, 0, 0)"
    "mapVoxelPosToChunkPos (0, 0, 0) (chunkSize (options world_six)) = (0, 0, 0)"
    by code_simp+
  have wr: "written (1, 5, 5) world_six = [0, 1]"
    by code_simp
  have nb: "getNeighborChunksByVoxel (0, 0, 0) world_six = [1, 2, 3]"
    by code_simp
  have st: "storeNamed world_six"
    using storeConsistent_world_six by (rule storeConsistent_named)
  note t = setVoxel_propagation [of "(1, 5, 5)" world_six 7]
  note u = setVoxel_propagation [of "(0, 0, 0)" world_six 7]
  from t nf(1) have "getNeighborChunksByVoxel (1, 5, 5) world_six =
      (case getChunkByCPos (shift (mapVoxelPosToChunkPos (1, 5, 5) (chunkSize (options world_six)))
         (- 1, 0, 0)) world_six of None \<Rightarrow> [] | Some c \<Rightarrow> [c])"
    by blast
  then have a: "getNeighborChunksByVoxel (1, 5, 5) world_six = [1]"
    by (simp only: g option.case)
  from t have "\<forall>r. heap (setVoxel (1, 5, 5) 7 world_six) r =
      (if r \<in> set (written (1, 5, 5) world_six) then Chunk_setVoxel (1, 5, 5) 7 (heap world_six r)
       else heap world_six r)"
    by blast
  from this [rule_format, of 1]
  have b: "heap (setVoxel (1, 5, 5) 7 world_six) 1 = Chunk_setVoxel (1, 5, 5) 7 (heap world_six 1)"
    by (simp add: wr)
  from t st have "\<forall>q c. getChunkByCPos q world_six = Some c \<longrightarrow>
         q \<noteq> mapVoxelPosToChunkPos (1, 5, 5) (chunkSize (options world_six)) \<longrightarrow>
         q \<notin> shift (mapVoxelPosToChunkPos (1, 5, 5) (chunkSize (options world_six))) `
           set (nearFaces (options world_six) (1, 5, 5)) \<longrightarrow>
         heap (setVoxel (1, 5, 5) 7 world_six) c = heap world_six c"
    by blast
  from this [rule_format, of "(0, 1, 0)" 5] g(2)
  have c: "heap (setVoxel (1, 5, 5) 7 world_six) 5 = heap world_six 5"
    by (simp add: cp nf shift_def)
  from u st have "\<forall>q c. getChunkByCPos q world_six = Some c \<longrightarrow>
         q \<noteq> mapVoxelPosToChunkPos (0, 0, 0) (chunkSize (options world_six)) \<longrightarrow>
         q \<notin> shift (mapVoxelPosToChunkPos (0, 0, 0) (chunkSize (options world_six))) `
           set (nearFaces (options world_six) (0, 0, 0)) \<longrightarrow>
         heap (setVoxel (0, 0, 0) 7 world_six) c = heap world_six c"
    by blast
  from this [rule_format, of "(- 1, - 1, 0)" 4] g(3)
  have d: "heap (setVoxel (0, 0, 0) 7 world_six) 4 = heap world_six 4"
    by (simp add: cp nf shift_def)
  from nf g a wr b st c nb d show ?thesis
    by simp
qed

text \<open>
  Claim C7. In a store whose chunks sit under their own coordinates and were built with
  the current chunk size and padding, with a positive chunk size, every neighbour that
  \<open>setVoxel\<close> wrote to reads the written type back at that voxel, and the mismatch
  branch of the consistency check logs nothing.
\<close>

theorem setVoxel_readback:
  assumes st: "storeConsistent w" and s: "0 < chunkSize (options w)"
  shows "(\<forall>c\<in>set (getNeighborChunksByVoxel v w).
       Chunk_getVoxel (heap (setVoxel v t w) c) v = t) \<and>
    events (setVoxel v t w) = events w"
proof -
  have r: "Chunk_getVoxel (heap (setVoxel v t w) c) v = t"
    if c: "c \<in> set (getNeighborChunksByVoxel v w)" for c
  proof -
    from c obtain d where d: "d \<in> set (nearFaces (options w) v)"
      and g: "getChunkByCPos (shift (mapVoxelPosToChunkPos v (chunkSize (options w))) d) w = Some c"
      by (auto simp: set_neighbours)
    from st g have "coords (heap w c) = shift (mapVoxelPosToChunkPos v (chunkSize (options w))) d"
      and "size_c (heap w c) = chunkSize (options w)"
      and "padding_c (heap w c) = chunkPadding (options w)"
      unfolding storeConsistent_def by blast+
    with s d have "covered (heap w c) v"
      by (intro neighbour_covered [where opts = "options w" and d = d]) simp_all
    moreover have "heap (setVoxel v t w) c = Chunk_setVoxel v t (heap w c)"
      using c by (simp add: setVoxel_heap written_def)
    ultimately show ?thesis
      by (simp add: getVoxel_after_setVoxel)
  qed
  then have "\<forall>c\<in>set (getNeighborChunksByVoxel v w).
       Chunk_getVoxel (heap (setVoxel v t w) c) v = t"
    by blast
  with setVoxel_events [of v w t] show ?thesis
    by blast
qed

theorem setVoxel_readback_witness:
  "storeConsistent world_six \<and> 0 < chunkSize (options world_six) \<and>
   getNeighborChunksByVoxel (1, 5, 5) world_six = [1] \<and>
   Chunk_getVoxel (heap world_six 1) (1, 5, 5) = 0 \<and>
   Chunk_getVoxel (heap (setVoxel (1, 5, 5) 7 world_six) 1) (1, 5, 5) = 7 \<and>
   events (setVoxel (1, 5, 5) 7 world_six) = events world_six"
proof -
  have s: "0 < chunkSize (options world_six)"
    by (simp add: world_six_def World_new_def defaultWorldOptions_def)
  have n: "getNeighborChunksByVoxel (1, 5, 5) world_six = [1]"
    "Chunk_getVoxel (heap world_six 1) (1, 5, 5) = 0"
    by code_simp+
  from setVoxel_readback [OF storeConsistent_world_six s, of "(1, 5, 5)" 7] n
  have "Chunk_getVoxel (heap (setVoxel (1, 5, 5) 7 world_six) 1) (1, 5, 5) = 7"
    and "events (setVoxel (1, 5, 5) 7 world_six) = events world_six"
    by simp_all
  with storeConsistent_world_six s n show ?thesis
    by simp
qed

text \<open>
  Claim C8. \<open>p\<close> is the chunk of the viewpoint. When its name equals the stored
  \<open>camChunkName\<close>, \<open>checkCamChunk\<close> returns a state with the same camera fields, store,
  queue and chunk objects, and the trace gains no "chunk changed" signal. When the name
  differs, it returns a state whose camera fields are the new name and \<open>p\<close>, whose
  store, queue and chunk objects are those the region fill around \<open>p\<close> produces, and
  the trace gains exactly one "chunk changed" signal, carrying \<open>p\<close>, before anything
  else.
\<close>

theorem checkCamChunk_tracker:
  assumes p: "p = mapVoxelPosToChunkPos pos (chunkSize (options w))"
  shows "(camChunkName w = Some (getChunkName p) \<longrightarrow> camChunkPos w = Some cam \<longrightarrow>
      (\<exists>w'. checkCamChunk pos w = Inr w' \<and>
         camChunkName w' = camChunkName w \<and> camChunkPos w' = camChunkPos w \<and>
         chunks w' = chunks w \<and> dirtyChunks w' = dirtyChunks w \<and> heap w' = heap w \<and>
         nextRef w' = nextRef w \<and>
         (\<exists>es. events w' = events w @ es \<and> (\<forall>q. EmitChunkChanged q \<notin> set es)))) \<and>
    (camChunkName w \<noteq> Some (getChunkName p) \<longrightarrow>
      (\<exists>w'. checkCamChunk pos w = Inr w' \<and>
         camChunkName w' = Some (getChunkName p) \<and> camChunkPos w' = Some p \<and>
         chunks w' = chunks (surroundLoops p w) \<and>
         dirtyChunks w' = dirtyChunks (surroundLoops p w) \<and>
         heap w' = heap (surroundLoops p w) \<and> nextRef w' = nextRef (surroundLoops p w) \<and>
         (\<exists>es. events w' = events w @ EmitChunkChanged p # es \<and>
            (\<forall>q. EmitChunkChanged q \<notin> set es))))"
proof (intro conjI impI)
  assume n: "camChunkName w = Some (getChunkName p)" and c: "camChunkPos w = Some cam"
  let ?es = "concat (map (sweepEvents w) (activeRegion cam (renderRadius (options w))))"
  have "checkCamChunk pos w = Inr (sweepLoops cam (renderRadius (options w)) w)"
    using n c unfolding p by (rule checkCamChunk_same)
  moreover have "\<forall>q. EmitChunkChanged q \<notin> set ?es"
    by (auto dest: sweepEvents_no_signal)
  ultimately show "\<exists>w'. checkCamChunk pos w = Inr w' \<and>
         camChunkName w' = camChunkName w \<and> camChunkPos w' = camChunkPos w \<and>
         chunks w' = chunks w \<and> dirtyChunks w' = dirtyChunks w \<and> heap w' = heap w \<and>
         nextRef w' = nextRef w \<and>
         (\<exists>es. events w' = events w @ es \<and> (\<forall>q. EmitChunkChanged q \<notin> set es))"
    by (simp add: sweepLoops_events)
next
  assume n: "camChunkName w \<noteq> Some (getChunkName p)"
  let ?w1 = "(surroundLoops p w)\<lparr>camChunkName := Some (getChunkName p), camChunkPos := Some p,
      events := events w @ [EmitChunkChanged p]\<rparr>"
  let ?es = "concat (map (sweepEvents ?w1) (activeRegion p (renderRadius (options w))))"
  have "checkCamChunk pos w = Inr (sweepLoops p (renderRadius (options w)) ?w1)"
    using n unfolding p by (rule checkCamChunk_changed)
  moreover have "\<forall>q. EmitChunkChanged q \<notin> set ?es"
    by (auto dest: sweepEvents_no_signal)
  ultimately show "\<exists>w'. checkCamChunk pos w = Inr w' \<and>
         camChunkName w' = Some (getChunkName p) \<and> camChunkPos w' = Some p \<and>
         chunks w' = chunks (surroundLoops p w) \<and>
         dirtyChunks w' = dirtyChunks (surroundLoops p w) \<and>
         heap w' = heap (surroundLoops p w) \<and> nextRef w' = nextRef (surroundLoops p w) \<and>
         (\<exists>es. events w' = events w @ EmitChunkChanged p # es \<and>
            (\<forall>q. EmitChunkChanged q \<notin> set es))"
    by (simp add: sweepLoops_events)
qed

theorem checkCamChunk_tracker_witness:
  "mapVoxelPosToChunkPos (5, 40, - 3) (chunkSize (options world_r1)) = (0, 1, - 1) \<and>
   camChunkName world_r1 \<noteq> Some (getChunkName (0, 1, - 1)) \<and>
   (\<exists>w'. checkCamChunk (5, 40, - 3) world_r1 = Inr w' \<and>
      camChunkName w' = Some (getChunkName (0, 1, - 1)) \<and> camChunkPos w' = Some (0, 1, - 1) \<and>
      chunks w' = chunks (surroundLoops (0, 1, - 1) world_r1) \<and>
      dirtyChunks w' = dirtyChunks (surroundLoops (0, 1, - 1) world_r1) \<and>
      (\<exists>es. events w' = events world_r1 @ EmitChunkChanged (0, 1, - 1) # es \<and>
         (\<forall>q. EmitChunkChanged q \<notin> set es))) \<and>
   camChunkName (world_flags\<lparr>camChunkName := Some (getChunkName (0, 0, 0)),
     camChunkPos := Some (0, 0, 0)\<rparr>) = Some (getChunkName (0, 0, 0)) \<and>
   (\<exists>w'. checkCamChunk (5, 6, 7) (world_flags\<lparr>camChunkName := Some (getChunkName (0, 0, 0)),
        camChunkPos := Some (0, 0, 0)\<rparr>) = Inr w' \<and>
      camChunkName w' = Some (getChunkName (0, 0, 0)) \<and> camChunkPos w' = Some (0, 0, 0) \<and>
      chunks w' = chunks world_flags \<and> dirtyChunks w' = dirtyChunks world_flags \<and>
      heap w' = heap world_flags \<and>
      (\<exists>es. events w' = events world_flags @ es \<and> (\<forall>q. EmitChunkChanged q \<notin> set es)))"
proof -
  let ?wf = "world_flags\<lparr>camChunkName := Some (getChunkName (0, 0, 0)),
     camChunkPos := Some (0, 0, 0)\<rparr>"
  have p1: "(0, 1, - 1) = mapVoxelPosToChunkPos (5, 40, - 3) (chunkSize (options world_r1))"
    by code_simp
  have p2: "(0, 0, 0) = mapVoxelPosToChunkPos (5, 6, 7) (chunkSize (options ?wf))"
    by code_simp
  have n1: "camChunkName world_r1 \<noteq> Some (getChunkName (0, 1, - 1))"
    by (simp add: world_r1_def World_new_def)
  have n2: "camChunkName ?wf = Some (getChunkName (0, 0, 0))" "camChunkPos ?wf = Some (0, 0, 0)"
    by simp_all
  from checkCamChunk_tracker [OF p1, of "(0, 0, 0)"] n1
  have a: "\<exists>w'. checkCamChunk (5, 40, - 3) world_r1 = Inr w' \<and>
      camChunkName w' = Some (getChunkName (0, 1, - 1)) \<and> camChunkPos w' = Some (0, 1, - 1) \<and>
      chunks w' = chunks (surroundLoops (0, 1, - 1) world_r1) \<and>
      dirtyChunks w' = dirtyChunks (surroundLoops (0, 1, - 1) world_r1) \<and>
      (\<exists>es. events w' = events world_r1 @ EmitChunkChanged (0, 1, - 1) # es \<and>
         (\<forall>q. EmitChunkChanged q \<notin> set es))"
    by blast
  from checkCamChunk_tracker [OF p2, of "(0, 0, 0)"] n2
  have b: "\<exists>w'. checkCamChunk (5, 6, 7) ?wf = Inr w' \<and>
      camChunkName w' = camChunkName ?wf \<and> camChunkPos w' = camChunkPos ?wf \<and>
      chunks w' = chunks ?wf \<and> dirtyChunks w' = dirtyChunks ?wf \<and>
      heap w' = heap ?wf \<and>
      (\<exists>es. events w' = events ?wf @ es \<and> (\<forall>q. EmitChunkChanged q \<notin> set es))"
    by blast
  from p1 n1 a n2 b show ?thesis
    by simp
qed

text \<open>
  Claim C9. Without a content generator a generation request marks the chunk not empty
  and pending, leaves every other chunk object alone and emits "data needed" with that
  chunk. With a generator the request calls the generator instead, and a whole tick
  emits no "data needed" signal.
\<close>

theorem requestChunkData_signal:
  "(generator w = None \<longrightarrow>
      \<not> isEmpty (heap (requestChunkData c w) c) \<and> isPending (heap (requestChunkData c w) c) \<and>
      events (requestChunkData c w) = events w @ [EmitDataNeeded c] \<and>
      (\<forall>r. r \<noteq> c \<longrightarrow> heap (requestChunkData c w) r = heap w r)) \<and>
   (generator w \<noteq> None \<longrightarrow>
      events (requestChunkData c w) = events w @ [CallGenerate c] \<and>
      (\<forall>pos w'. tick pos w = Inr w' \<longrightarrow>
         dataNeededChunks (events w') = dataNeededChunks (events w)))"
proof (intro conjI impI allI)
  fix pos w'
  assume g: "generator w \<noteq> None" and t: "tick pos w = Inr w'"
  from t obtain w1 where c: "checkCamChunk pos w = Inr w1" and w': "w' = meshDirtyChunks w1"
    by (auto simp: tick_def split: sum.splits)
  from checkCamChunk_dataNeeded [OF c] g
  have "dataNeededChunks (events w1) = dataNeededChunks (events w)" and "generator w1 \<noteq> None"
    by simp_all
  then show "dataNeededChunks (events w') = dataNeededChunks (events w)"
    by (simp add: w' meshDirtyChunks_dataNeeded)
qed (auto simp: requestChunkData_def)

theorem requestChunkData_signal_witness:
  "generator world_nogen = None \<and>
   isEmpty (heap world_nogen 0) \<and> \<not> isPending (heap world_nogen 0) \<and>
   \<not> isEmpty (heap (requestChunkData 0 world_nogen) 0) \<and>
   isPending (heap (requestChunkData 0 world_nogen) 0) \<and>
   events (requestChunkData 0 world_nogen) = [EmitDataNeeded 0] \<and>
   heap (requestChunkData 0 world_nogen) 1 = heap world_nogen 1 \<and>
   generator world_q5 \<noteq> None \<and>
   events (requestChunkData 3 world_q5) = [CallGenerate 3] \<and>
   (\<exists>w'. tick (0, 0, 0) world_q5 = Inr w' \<and> dataNeededChunks (events w') = [])"
proof -
  have g: "generator world_nogen = None" "generator world_q5 \<noteq> None"
    by (simp_all add: world_nogen_simps world_q5_simps)
  have f: "isEmpty (heap world_nogen 0)" "\<not> isPending (heap world_nogen 0)"
    "events world_nogen = []" "events world_q5 = []"
    by (simp_all add: world_nogen_simps world_q5_simps)
  have cn: "camChunkName world_q5 \<noteq>
      Some (getChunkName (mapVoxelPosToChunkPos (0, 0, 0) (chunkSize (options world_q5))))"
    by (simp add: world_q5_def World_new_def)
  from checkCamChunk_changed [OF cn]
  obtain w' where w': "tick (0, 0, 0) world_q5 = Inr w'"
    by (simp add: tick_def)
  note t = requestChunkData_signal [of world_nogen 0]
  note u = requestChunkData_signal [of world_q5 3]
  from t g(1) have a: "\<not> isEmpty (heap (requestChunkData 0 world_nogen) 0)"
    "isPending (heap (requestChunkData 0 world_nogen) 0)"
    "events (requestChunkData 0 world_nogen) = events world_nogen @ [EmitDataNeeded 0]"
    by blast+
  from t g(1) have "\<forall>r. r \<noteq> 0 \<longrightarrow> heap (requestChunkData 0 world_nogen) r = heap world_nogen r"
    by blast
  from this [rule_format, of 1]
  have b: "heap (requestChunkData 0 world_nogen) 1 = heap world_nogen 1"
    by simp
  from u g(2) have c: "events (requestChunkData 3 world_q5) = events world_q5 @ [CallGenerate 3]"
    by blast
  from u g(2) w' have "dataNeededChunks (events w') = dataNeededChunks (events world_q5)"
    by blast
  with w' have d: "\<exists>w'. tick (0, 0, 0) world_q5 = Inr w' \<and> dataNeededChunks (events w') = []"
    by (simp add: f)
  from g f a b c d show ?thesis
    by simp
qed

text \<open>
  Claim C10. With a content generator configured a generation request leaves every chunk
  object as it is, so the chunk stays not pending. A chunk that is neither initialized
  nor pending therefore goes through the request branch again when it is drained again:
  two drains of it issue two generation requests, within one loop and also across two
  calls of \<open>meshDirtyChunks\<close> with a budget of one entry each.
\<close>

theorem generator_request_repeats:
  assumes g: "generator w = Some g"
  shows "heap (requestChunkData c w) = heap w \<and>
    events (requestChunkData c w) = events w @ [CallGenerate c] \<and>
    (\<not> isInitialized (heap w c) \<longrightarrow> \<not> isPending (heap w c) \<longrightarrow>
       heap (drainEntry c w) = heap w \<and>
       dirtyChunks (drainEntry c w) = dirtyChunks w @ [c] \<and>
       events (drainEntry c w) = events w @ [CallGenerate c] \<and>
       events (drainEntry c (drainEntry c w)) = events w @ [CallGenerate c, CallGenerate c]) \<and>
    (\<not> isInitialized (heap w c) \<longrightarrow> \<not> isPending (heap w c) \<longrightarrow> dirtyChunks w = [c] \<longrightarrow>
     maxChunkPerFrame (options w) = 0 \<longrightarrow>
       events (meshDirtyChunks (meshDirtyChunks w)) =
         events w @ [CallGenerate c, CallGenerate c] \<and>
       dirtyChunks (meshDirtyChunks (meshDirtyChunks w)) = [c] \<and>
       heap (meshDirtyChunks (meshDirtyChunks w)) = heap w)"
proof -
  have 1: "heap (requestChunkData c w) = heap w"
    using g by (rule heap_requestChunkData_generator)
  have 2: "events (requestChunkData c w) = events w @ [CallGenerate c]"
    using g by (simp add: events_requestChunkData)
  have 3: "heap (drainEntry c w) = heap w \<and>
       dirtyChunks (drainEntry c w) = dirtyChunks w @ [c] \<and>
       events (drainEntry c w) = events w @ [CallGenerate c] \<and>
       events (drainEntry c (drainEntry c w)) = events w @ [CallGenerate c, CallGenerate c]"
    if "\<not> isInitialized (heap w c)" "\<not> isPending (heap w c)"
    using that g by (simp add: drainEntry_def Let_def requestChunkData_def)
  have 4: "events (meshDirtyChunks (meshDirtyChunks w)) =
         events w @ [CallGenerate c, CallGenerate c] \<and>
       dirtyChunks (meshDirtyChunks (meshDirtyChunks w)) = [c] \<and>
       heap (meshDirtyChunks (meshDirtyChunks w)) = heap w"
    if f: "\<not> isInitialized (heap w c)" "\<not> isPending (heap w c)" and q: "dirtyChunks w = [c]"
      and m: "maxChunkPerFrame (options w) = 0"
  proof -
    let ?w1 = "w\<lparr>events := events w @ [CallGenerate c]\<rparr>"
    have a: "meshDirtyChunks w = ?w1"
      using g q m f by (rule meshDirtyChunks_single)
    have "meshDirtyChunks ?w1 = ?w1\<lparr>events := events ?w1 @ [CallGenerate c]\<rparr>"
      using g q m f by (intro meshDirtyChunks_single) simp_all
    with a show ?thesis
      using q by simp
  qed
  from 1 2 3 4 show ?thesis
    by blast
qed

theorem generator_request_repeats_witness:
  "generator world_q1 = Some SinCosGenerator \<and>
   \<not> isInitialized (heap world_q1 0) \<and> \<not> isPending (heap world_q1 0) \<and>
   dirtyChunks world_q1 = [0] \<and> maxChunkPerFrame (options world_q1) = 0 \<and>
   heap (requestChunkData 0 world_q1) = heap world_q1 \<and>
   \<not> isPending (heap (requestChunkData 0 world_q1) 0) \<and>
   events (drainEntry 0 (drainEntry 0 world_q1)) = [CallGenerate 0, CallGenerate 0] \<and>
   events (meshDirtyChunks (meshDirtyChunks world_q1)) = [CallGenerate 0, CallGenerate 0] \<and>
   dirtyChunks (meshDirtyChunks (meshDirtyChunks world_q1)) = [0]"
proof -
  have g: "generator world_q1 = Some SinCosGenerator"
    by (simp add: world_q1_simps)
  have f: "\<not> isInitialized (heap world_q1 0)" "\<not> isPending (heap world_q1 0)"
    by (simp_all add: world_q1_simps)
  have q: "dirtyChunks world_q1 = [0]" "maxChunkPerFrame (options world_q1) = 0"
    "events world_q1 = []"
    by (simp_all add: world_q1_simps)
  note t = generator_request_repeats [OF g, of 0]
  from t have a: "heap (requestChunkData 0 world_q1) = heap world_q1"
    by blast
  from t f have b: "events (drainEntry 0 (drainEntry 0 world_q1)) =
      events world_q1 @ [CallGenerate 0, CallGenerate 0]"
    by blast
  from t f q have c: "events (meshDirtyChunks (meshDirtyChunks world_q1)) =
      events world_q1 @ [CallGenerate 0, CallGenerate 0]"
    "dirtyChunks (meshDirtyChunks (meshDirtyChunks world_q1)) = [0]"
    by blast+
  from g f q a b c show ?thesis
    by simp
qed

end
